theory Spec2Isabelle
  imports Complex_Main "HOL-Library.Sublist" "HOL-Library.Multiset" "HOL-Library.AList"
begin

section \<open>Strings\<close>

text \<open>
  A string is the list of the bytes of its UTF-8 encoding. \<open>String.prototype.trim\<close> removes
  white space and line terminators from both ends: the code points U+0009 to U+000D,
  U+0020, U+00A0, U+1680, U+2000 to U+200A, U+2028, U+2029, U+202F, U+205F, U+3000 and
  U+FEFF, listed here by their encodings.
\<close>

definition whiteSpace :: "string list" where
  "whiteSpace =
     [[CHR 0x09], [CHR 0x0A], [CHR 0x0B], [CHR 0x0C], [CHR 0x0D], [CHR 0x20],
      [CHR 0xC2, CHR 0xA0],
      [CHR 0xE1, CHR 0x9A, CHR 0x80],
      [CHR 0xE2, CHR 0x80, CHR 0x80], [CHR 0xE2, CHR 0x80, CHR 0x81],
      [CHR 0xE2, CHR 0x80, CHR 0x82], [CHR 0xE2, CHR 0x80, CHR 0x83],
      [CHR 0xE2, CHR 0x80, CHR 0x84], [CHR 0xE2, CHR 0x80, CHR 0x85],
      [CHR 0xE2, CHR 0x80, CHR 0x86], [CHR 0xE2, CHR 0x80, CHR 0x87],
      [CHR 0xE2, CHR 0x80, CHR 0x88], [CHR 0xE2, CHR 0x80, CHR 0x89],
      [CHR 0xE2, CHR 0x80, CHR 0x8A],
      [CHR 0xE2, CHR 0x80, CHR 0xA8], [CHR 0xE2, CHR 0x80, CHR 0xA9],
      [CHR 0xE2, CHR 0x80, CHR 0xAF],
      [CHR 0xE2, CHR 0x81, CHR 0x9F],
      [CHR 0xE3, CHR 0x80, CHR 0x80],
      [CHR 0xEF, CHR 0xBB, CHR 0xBF]]"

text \<open>
  One white-space character is removed from an end at a time, at most once for every byte of
  the string, which is as often as one can be found.
\<close>

primrec trimStartN :: "nat \<Rightarrow> string \<Rightarrow> string" where
  "trimStartN 0 s = s"
| "trimStartN (Suc k) s =
     (case find (\<lambda>w. prefix w s) whiteSpace of
        None \<Rightarrow> s
      | Some w \<Rightarrow> trimStartN k (drop (length w) s))"

primrec trimEndN :: "nat \<Rightarrow> string \<Rightarrow> string" where
  "trimEndN 0 s = s"
| "trimEndN (Suc k) s =
     (case find (\<lambda>w. suffix w s) whiteSpace of
        None \<Rightarrow> s
      | Some w \<Rightarrow> trimEndN k (take (length s - length w) s))"

definition js_trim :: "string \<Rightarrow> string" where
  "js_trim s = trimEndN (length s) (trimStartN (length s) s)"

text \<open>
  \<open>String.prototype.toLowerCase\<close> is modelled on the letters A to Z; the other bytes, and so
  every letter outside ASCII, are left as they are.
\<close>

definition lower_char :: "char \<Rightarrow> char" where
  "lower_char c =
     (case map_of (zip ''ABCDEFGHIJKLMNOPQRSTUVWXYZ'' ''abcdefghijklmnopqrstuvwxyz'') c of
        Some l \<Rightarrow> l
      | None \<Rightarrow> c)"

definition toLowerCase :: "string \<Rightarrow> string" where
  "toLowerCase s = map lower_char s"

text \<open>
  Request fields and record fields are optional strings: \<open>None\<close> is \<open>undefined\<close> (the field
  is absent). A string is truthy when it is not empty.
\<close>

definition truthy :: "string option \<Rightarrow> bool" where
  "truthy x = (case x of None \<Rightarrow> False | Some s \<Rightarrow> s \<noteq> [])"

section \<open>Numbers\<close>

text \<open>
  A JavaScript number is a finite number, one of the two infinities, or NaN. A finite result
  of an operation is kept exact (rounding and the sign of zero are left out), and a result
  beyond the largest double, \<open>Number.MAX_VALUE\<close>, overflows to the infinity of its sign.
\<close>

datatype number = Num real | PosInf | NegInf | NaN

definition MAX_VALUE :: real where
  "MAX_VALUE = (2 ^ 53 - 1) * 2 ^ 971"

definition fin :: "real \<Rightarrow> number" where
  "fin r = (if MAX_VALUE < r then PosInf else if r < - MAX_VALUE then NegInf else Num r)"

fun js_neg :: "number \<Rightarrow> number" where
  "js_neg (Num a) = Num (- a)"
| "js_neg PosInf = NegInf"
| "js_neg NegInf = PosInf"
| "js_neg NaN = NaN"

fun js_add :: "number \<Rightarrow> number \<Rightarrow> number" where
  "js_add (Num a) (Num b) = fin (a + b)"
| "js_add NaN y = NaN"
| "js_add x NaN = NaN"
| "js_add PosInf NegInf = NaN"
| "js_add NegInf PosInf = NaN"
| "js_add PosInf y = PosInf"
| "js_add x PosInf = PosInf"
| "js_add NegInf y = NegInf"
| "js_add x NegInf = NegInf"

definition js_sub :: "number \<Rightarrow> number \<Rightarrow> number" where
  "js_sub x y = js_add x (js_neg y)"

fun js_mul :: "number \<Rightarrow> number \<Rightarrow> number" where
  "js_mul (Num a) (Num b) = fin (a * b)"
| "js_mul NaN y = NaN"
| "js_mul x NaN = NaN"
| "js_mul (Num a) y = (if a = 0 then NaN else if 0 < a then y else js_neg y)"
| "js_mul x (Num b) = (if b = 0 then NaN else if 0 < b then x else js_neg x)"
| "js_mul PosInf y = y"
| "js_mul NegInf y = js_neg y"

fun js_div :: "number \<Rightarrow> number \<Rightarrow> number" where
  "js_div (Num a) (Num b) =
     (if b = 0 then (if a = 0 then NaN else if 0 < a then PosInf else NegInf)
      else fin (a / b))"
| "js_div NaN y = NaN"
| "js_div x NaN = NaN"
| "js_div (Num a) y = Num 0"
| "js_div x (Num b) = (if 0 \<le> b then x else js_neg x)"
| "js_div x y = NaN"

fun js_sqrt :: "number \<Rightarrow> number" where
  "js_sqrt (Num a) = (if a < 0 then NaN else Num (sqrt a))"
| "js_sqrt PosInf = PosInf"
| "js_sqrt NegInf = NaN"
| "js_sqrt NaN = NaN"

section \<open>Data model\<close>

text \<open>
  The key-value store holds JSON objects of three shapes (profiles, categories and notes)
  that the handlers tell apart by the fields present. One record type with every field
  optional covers the three shapes; \<open>None\<close> is an absent field.
\<close>

record item =
  item_id :: "string option"
  name :: "string option"
  description :: "string option"
  avatar :: "string option"
  categoryName :: "string option"
  entry :: "string option"
  categoryId :: "string option"
  profileId :: "string option"
  userId :: "string option"
  embedding :: "number list option"
  createdAt :: "string option"
  updatedAt :: "string option"

definition blank :: item where
  "blank = \<lparr>item_id = None, name = None, description = None, avatar = None,
     categoryName = None, entry = None, categoryId = None, profileId = None, userId = None,
     embedding = None, createdAt = None, updatedAt = None\<rparr>"

text \<open>The rows of the two Postgres tables, \<open>profiles\<close> and \<open>memory_items\<close>.\<close>

record profile_row =
  row_id :: string
  row_user_id :: string
  row_name :: string
  row_avatar :: string
  row_description :: string
  row_created_at :: string

record memory_row =
  mem_id :: string
  mem_user_id :: string
  mem_profile_id :: string
  mem_profile_name :: "string option"
  mem_entry :: "string option"
  mem_embedding :: "number list"
  mem_created_at :: string
  mem_updated_at :: string

text \<open>Every access to a store is recorded, in order, in the trace of the state.\<close>

datatype store_op =
    KvGetByPrefix string
  | KvSet string
  | KvDel string
  | KvMdel "string list"
  | DbSelect string
  | DbUpsert string
  | DbDelete string

type_synonym kv_store = "(string \<times> item) list"

record state =
  kv :: kv_store
  profiles :: "profile_row list"
  memory_items :: "memory_row list"
  trace :: "store_op list"
  uuid_count :: nat

text \<open>The categories and notes of a submit request.\<close>

record category_in =
  cat_id :: "string option"
  cat_name :: "string option"
  cat_createdAt :: "string option"

record note_in =
  note_id :: "string option"
  note_entry :: "string option"
  note_categoryId :: "string option"
  note_createdAt :: "string option"

text \<open>
  The environment of a request: the authentication service (\<open>supabase.auth.getUser\<close>, from
  the access token to the user id), the Gemini embedding model (\<open>None\<close> when no API key is
  configured; \<open>embedContent\<close> either rejects with a message or returns the optional
  \<open>values\<close>), the sequence of identifiers that \<open>crypto.randomUUID\<close> draws, the clock, and
  the order in which the concurrent note writes of one submit take place (the pending notes
  with their ids, rearranged).
\<close>

record env =
  getUser :: "string option \<Rightarrow> string option"
  embeddingModel :: "(string \<Rightarrow> string + number list option) option"
  randomUUID :: "nat \<Rightarrow> string"
  now :: string
  writeOrder :: "(string \<times> note_in) list \<Rightarrow> (string \<times> note_in) list"

subsection \<open>The key-value store\<close>

text \<open>
  The module \<open>kv_store.tsx\<close> is not among the sources; its four operations follow the
  contract of the spec: the store maps namespaced string keys to one record each. The
  listing order, which the spec leaves open, is the order of the association list: a new key
  is appended, a rewritten key keeps its place.
\<close>

text \<open>Modelled from the spec: \<open>set(key, value)\<close> of \<open>kv_store.tsx\<close> writes the record of a key.\<close>

definition kv_set :: "string \<Rightarrow> item \<Rightarrow> kv_store \<Rightarrow> kv_store" where
  "kv_set k v store = AList.update k v store"

text \<open>
  Modelled from the spec: \<open>getByPrefix(prefix)\<close> of \<open>kv_store.tsx\<close> lists the records whose
  key starts with the prefix.
\<close>

definition kv_getByPrefix :: "string \<Rightarrow> kv_store \<Rightarrow> item list" where
  "kv_getByPrefix p store = map snd (filter (\<lambda>x. prefix p (fst x)) store)"

text \<open>Modelled from the spec: \<open>mdel(keys)\<close> of \<open>kv_store.tsx\<close> removes the keys.\<close>

definition kv_mdel :: "string list \<Rightarrow> kv_store \<Rightarrow> kv_store" where
  "kv_mdel ks store = filter (\<lambda>x. fst x \<notin> set ks) store"

text \<open>Modelled from the spec: \<open>del(key)\<close> of \<open>kv_store.tsx\<close> removes one key.\<close>

definition kv_del :: "string \<Rightarrow> kv_store \<Rightarrow> kv_store" where
  "kv_del k store = kv_mdel [k] store"

subsection \<open>The relational tables\<close>

text \<open>
  The tables are reached through the Supabase client, and their schema is not among the
  sources. A table is the list of its rows.
\<close>

text \<open>
  Modelled from the spec: \<open>upsert\<close> replaces the row that has the primary key of the new row
  (the \<open>id\<close>, which for \<open>memory_items\<close> is the note id), or appends the new row.
\<close>

fun upsert_row :: "('r \<Rightarrow> string) \<Rightarrow> 'r \<Rightarrow> 'r list \<Rightarrow> 'r list" where
  "upsert_row key r [] = [r]"
| "upsert_row key r (x # xs) = (if key x = key r then r # xs else x # upsert_row key r xs)"

text \<open>
  Modelled from the spec: \<open>delete().eq(...)\<close> removes the rows that satisfy every equality.
\<close>

definition delete_rows :: "('r \<Rightarrow> bool) \<Rightarrow> 'r list \<Rightarrow> 'r list" where
  "delete_rows matches rows = filter (\<lambda>row. \<not> matches row) rows"

subsection \<open>Keys\<close>

definition userPrefix :: "string \<Rightarrow> string" where
  "userPrefix uid = ''user:'' @ uid @ '':profile:''"

definition profileKey :: "string \<Rightarrow> string \<Rightarrow> string" where
  "profileKey uid pid = userPrefix uid @ pid"

definition notePrefix :: "string \<Rightarrow> string \<Rightarrow> string" where
  "notePrefix uid pid = userPrefix uid @ pid @ '':note:''"

definition categoryPrefix :: "string \<Rightarrow> string \<Rightarrow> string" where
  "categoryPrefix uid pid = userPrefix uid @ pid @ '':category:''"

text \<open>An identifier inside a template literal: an absent one prints as \<open>undefined\<close>.\<close>

definition idString :: "string option \<Rightarrow> string" where
  "idString x = (case x of None \<Rightarrow> ''undefined'' | Some i \<Rightarrow> i)"

definition traced :: "store_op \<Rightarrow> state \<Rightarrow> state" where
  "traced op s = s\<lparr>trace := trace s @ [op]\<rparr>"

text \<open>\<open>x || crypto.randomUUID()\<close>: a truthy identifier is kept, otherwise one is drawn.\<close>

definition orUUID :: "env \<Rightarrow> string option \<Rightarrow> state \<Rightarrow> string \<times> state" where
  "orUUID e x s =
     (case x of
        Some v \<Rightarrow>
          if v \<noteq> [] then (v, s)
          else (randomUUID e (uuid_count s), s\<lparr>uuid_count := Suc (uuid_count s)\<rparr>)
      | None \<Rightarrow> (randomUUID e (uuid_count s), s\<lparr>uuid_count := Suc (uuid_count s)\<rparr>))"

text \<open>\<open>x || fallback\<close> on an optional string.\<close>

definition orElse :: "string option \<Rightarrow> string \<Rightarrow> string" where
  "orElse x fallback = (case x of Some v \<Rightarrow> if v \<noteq> [] then v else fallback | None \<Rightarrow> fallback)"

section \<open>Cosine similarity\<close>

text \<open>
  The loop of \<open>cosineSimilarity\<close>: one pass over both vectors with the three accumulators
  \<open>dotProduct\<close>, \<open>magA\<close> and \<open>magB\<close>. It is entered with vectors of equal length only.
\<close>

fun accumulate ::
  "number list \<Rightarrow> number list \<Rightarrow> number \<times> number \<times> number \<Rightarrow> number \<times> number \<times> number" where
  "accumulate (x # xs) (y # ys) (dotProduct, magA, magB) =
     accumulate xs ys
       (js_add dotProduct (js_mul x y), js_add magA (js_mul x x), js_add magB (js_mul y y))"
| "accumulate _ _ acc = acc"

text \<open>
  A vector argument is \<open>None\<close> when it is \<open>null\<close> or \<open>undefined\<close> (the guards \<open>!vecA\<close> and
  \<open>!vecB\<close>).
\<close>

definition cosineSimilarity :: "number list option \<Rightarrow> number list option \<Rightarrow> number" where
  "cosineSimilarity vecA vecB =
     (case (vecA, vecB) of
        (Some a, Some b) \<Rightarrow>
          if a = [] \<or> b = [] then Num 0
          else if length a \<noteq> length b then Num 0
          else
            (case accumulate a b (Num 0, Num 0, Num 0) of
               (dotProduct, sqA, sqB) \<Rightarrow>
                 let magA = js_sqrt sqA; magB = js_sqrt sqB
                 in if magA = Num 0 \<or> magB = Num 0 then Num 0
                    else js_div dotProduct (js_mul magA magB))
      | _ \<Rightarrow> Num 0)"

section \<open>The embedding provider\<close>

definition generateSimpleEmbedding :: "env \<Rightarrow> string \<Rightarrow> string + number list" where
  "generateSimpleEmbedding e text =
     (case embeddingModel e of
        None \<Rightarrow> Inl ''Gemini embedding model is not initialized.''
      | Some embedContent \<Rightarrow>
          if js_trim text = [] then Inr (replicate 768 (Num 0))
          else
            (case embedContent text of
               Inl message \<Rightarrow> Inl message
             | Inr values \<Rightarrow> Inr (case values of None \<Rightarrow> [] | Some v \<Rightarrow> v)))"

section \<open>Responses\<close>

text \<open>
  One entry of \<open>relevantNotes\<close>. \<open>relevanceScore\<close> is the number \<open>similarity * 100\<close>; its
  formatting as a percentage with two decimals and the search URL derived from the entry
  are presentation and are left out.
\<close>

record relevant =
  noteId :: "string option"
  rel_entry :: "string option"
  rel_profileId :: "string option"
  relevanceScore :: number

text \<open>
  The JSON responses of the handlers: the error responses by status (401, 400, 404, 500)
  with their message, and one constructor for each successful body. \<open>NoNotes\<close> carries
  \<open>gifts\<close>, \<open>matchedNotes\<close> and \<open>message\<close>; \<open>SearchResult\<close> carries \<open>query\<close>, \<open>usedProfile\<close>,
  \<open>totalNotesSearched\<close> and \<open>relevantNotes\<close>.
\<close>

datatype response =
    Unauthorized
  | BadRequest string
  | NotFound string
  | ServerError string
  | Profiles "item list"
  | Profile item
  | Success
  | Categories "item list"
  | Notes "item list"
  | Submitted
  | NoNotes "relevant list" "relevant list" string
  | SearchResult string string nat "relevant list"

section \<open>Profile handlers\<close>

text \<open>The shape filter that selects the profile records among the records of a user.\<close>

definition isProfileItem :: "item \<Rightarrow> bool" where
  "isProfileItem x =
     (truthy (name x) \<and> truthy (description x) \<and> \<not> truthy (categoryName x) \<and> \<not> truthy (entry x))"

definition get_profiles :: "env \<Rightarrow> string option \<Rightarrow> state \<Rightarrow> response \<times> state" where
  "get_profiles e accessToken s =
     (case getUser e accessToken of
        None \<Rightarrow> (Unauthorized, s)
      | Some uid \<Rightarrow>
          let allItems = kv_getByPrefix (userPrefix uid) (kv s);
              s1 = traced (KvGetByPrefix (userPrefix uid)) s
          in (Profiles (filter isProfileItem allItems), s1))"

record create_req =
  cp_accessToken :: "string option"
  cp_name :: "string option"
  cp_avatar :: "string option"
  cp_description :: "string option"

text \<open>\<open>!x || typeof x !== "string" || x.trim() === ""\<close> is the negation of this test.\<close>

definition requiredText :: "string option \<Rightarrow> bool" where
  "requiredText x = (case x of None \<Rightarrow> False | Some v \<Rightarrow> v \<noteq> [] \<and> js_trim v \<noteq> [])"

definition create_profile :: "env \<Rightarrow> create_req \<Rightarrow> state \<Rightarrow> response \<times> state" where
  "create_profile e r s =
     (case getUser e (cp_accessToken r) of
        None \<Rightarrow> (Unauthorized, s)
      | Some uid \<Rightarrow>
          let allItems = kv_getByPrefix (userPrefix uid) (kv s);
              s1 = traced (KvGetByPrefix (userPrefix uid)) s;
              existingProfiles = filter isProfileItem allItems
          in if length existingProfiles \<ge> 5 then (BadRequest ''Maximum 5 profiles allowed'', s1)
             else if \<not> requiredText (cp_name r) then (BadRequest ''Profile name is required'', s1)
             else if \<not> requiredText (cp_description r)
               then (BadRequest ''Profile description is required'', s1)
             else
               let pid = randomUUID e (uuid_count s1);
                   s2 = s1\<lparr>uuid_count := Suc (uuid_count s1)\<rparr>;
                   profile = blank\<lparr>item_id := Some pid,
                     name := Some (js_trim (orElse (cp_name r) [])),
                     avatar := Some (orElse (cp_avatar r) []),
                     description := Some (js_trim (orElse (cp_description r) [])),
                     userId := Some uid,
                     createdAt := Some (now e)\<rparr>;
                   s3 = traced (KvSet (profileKey uid pid))
                          (s2\<lparr>kv := kv_set (profileKey uid pid) profile (kv s2)\<rparr>);
                   row = \<lparr>row_id = pid, row_user_id = uid,
                     row_name = js_trim (orElse (cp_name r) []),
                     row_avatar = orElse (cp_avatar r) [],
                     row_description = js_trim (orElse (cp_description r) []),
                     row_created_at = now e\<rparr>;
                   s4 = traced (DbUpsert ''profiles'')
                          (s3\<lparr>profiles := upsert_row row_id row (profiles s3)\<rparr>)
               in (Profile profile, s4))"

definition delete_profile :: "env \<Rightarrow> string option \<Rightarrow> string \<Rightarrow> state \<Rightarrow> response \<times> state" where
  "delete_profile e accessToken pid s =
     (case getUser e accessToken of
        None \<Rightarrow> (Unauthorized, s)
      | Some uid \<Rightarrow>
          let notes = kv_getByPrefix (notePrefix uid pid) (kv s);
              s1 = traced (KvGetByPrefix (notePrefix uid pid)) s;
              categories = kv_getByPrefix (categoryPrefix uid pid) (kv s1);
              s2 = traced (KvGetByPrefix (categoryPrefix uid pid)) s1;
              keysToDelete =
                profileKey uid pid
                # map (\<lambda>n. notePrefix uid pid @ idString (item_id n)) notes
                @ map (\<lambda>cat. categoryPrefix uid pid @ idString (item_id cat)) categories;
              s3 = traced (KvMdel keysToDelete) (s2\<lparr>kv := kv_mdel keysToDelete (kv s2)\<rparr>);
              s4 = traced (DbDelete ''memory_items'')
                     (s3\<lparr>memory_items :=
                        delete_rows (\<lambda>row. mem_user_id row = uid \<and> mem_profile_id row = pid)
                          (memory_items s3)\<rparr>);
              s5 = traced (DbDelete ''profiles'')
                     (s4\<lparr>profiles :=
                        delete_rows (\<lambda>row. row_user_id row = uid \<and> row_id row = pid)
                          (profiles s4)\<rparr>)
          in (Success, s5))"

definition get_categories :: "env \<Rightarrow> string option \<Rightarrow> string \<Rightarrow> state \<Rightarrow> response \<times> state" where
  "get_categories e accessToken pid s =
     (case getUser e accessToken of
        None \<Rightarrow> (Unauthorized, s)
      | Some uid \<Rightarrow>
          (Categories (kv_getByPrefix (categoryPrefix uid pid) (kv s)),
           traced (KvGetByPrefix (categoryPrefix uid pid)) s))"

definition get_notes :: "env \<Rightarrow> string option \<Rightarrow> string \<Rightarrow> state \<Rightarrow> response \<times> state" where
  "get_notes e accessToken pid s =
     (case getUser e accessToken of
        None \<Rightarrow> (Unauthorized, s)
      | Some uid \<Rightarrow>
          (Notes (kv_getByPrefix (notePrefix uid pid) (kv s)),
           traced (KvGetByPrefix (notePrefix uid pid)) s))"

definition delete_note ::
  "env \<Rightarrow> string option \<Rightarrow> string \<Rightarrow> string \<Rightarrow> state \<Rightarrow> response \<times> state" where
  "delete_note e accessToken pid nid s =
     (case getUser e accessToken of
        None \<Rightarrow> (Unauthorized, s)
      | Some uid \<Rightarrow>
          let s1 = traced (KvDel (notePrefix uid pid @ nid))
                     (s\<lparr>kv := kv_del (notePrefix uid pid @ nid) (kv s)\<rparr>);
              s2 = traced (DbDelete ''memory_items'')
                     (s1\<lparr>memory_items :=
                        delete_rows
                          (\<lambda>row. mem_user_id row = uid \<and> mem_profile_id row = pid \<and> mem_id row = nid)
                          (memory_items s1)\<rparr>)
          in (Success, s2))"

section \<open>Submit\<close>

record submit_req =
  sub_accessToken :: "string option"
  sub_profileId :: string
  sub_categories :: "category_in list option"
  sub_notes :: "note_in list option"

text \<open>
  The handler starts all writes at once and waits for all of them. The category writes are
  issued in the order of the request. A note's id is fixed as soon as its write is created,
  so the ids are drawn in the order of the request; its embedding and its two writes come
  after awaited calls, and the notes are written in the order that the environment gives. The
  two writes of a note are taken together; the two stores are separate, so this changes the
  contents of neither unless two notes of one request have the same id. A note whose
  embedding fails writes nothing and does not stop the others.
\<close>

definition saveCategory :: "env \<Rightarrow> string \<Rightarrow> string \<Rightarrow> category_in \<Rightarrow> state \<Rightarrow> state" where
  "saveCategory e uid pid category s =
     (case orUUID e (cat_id category) s of
        (cid, s1) \<Rightarrow>
          traced (KvSet (categoryPrefix uid pid @ cid))
            (s1\<lparr>kv :=
               kv_set (categoryPrefix uid pid @ cid)
                 (blank\<lparr>item_id := Some cid, name := cat_name category, profileId := Some pid,
                    userId := Some uid,
                    createdAt := Some (orElse (cat_createdAt category) (now e))\<rparr>)
                 (kv s1)\<rparr>))"

fun saveCategories :: "env \<Rightarrow> string \<Rightarrow> string \<Rightarrow> category_in list \<Rightarrow> state \<Rightarrow> state" where
  "saveCategories e uid pid [] s = s"
| "saveCategories e uid pid (c # cs) s = saveCategories e uid pid cs (saveCategory e uid pid c s)"

definition noteRecord :: "env \<Rightarrow> string \<Rightarrow> string \<Rightarrow> string \<Rightarrow> note_in \<Rightarrow> number list \<Rightarrow> item" where
  "noteRecord e uid pid nid note emb =
     blank\<lparr>item_id := Some nid, entry := note_entry note, categoryId := note_categoryId note,
       profileId := Some pid, userId := Some uid, embedding := Some emb,
       createdAt := Some (orElse (note_createdAt note) (now e)),
       updatedAt := Some (now e)\<rparr>"

definition memoryRow ::
  "env \<Rightarrow> string \<Rightarrow> string \<Rightarrow> string option \<Rightarrow> string \<Rightarrow> note_in \<Rightarrow> number list \<Rightarrow> memory_row" where
  "memoryRow e uid pid profileNameForMemory nid note emb =
     \<lparr>mem_id = nid, mem_user_id = uid, mem_profile_id = pid,
      mem_profile_name = profileNameForMemory, mem_entry = note_entry note,
      mem_embedding = emb, mem_created_at = orElse (note_createdAt note) (now e),
      mem_updated_at = now e\<rparr>"

fun assignNoteIds :: "env \<Rightarrow> note_in list \<Rightarrow> state \<Rightarrow> (string \<times> note_in) list \<times> state" where
  "assignNoteIds e [] s = ([], s)"
| "assignNoteIds e (note # rest) s =
     (case orUUID e (note_id note) s of
        (nid, s1) \<Rightarrow>
          (case assignNoteIds e rest s1 of
             (pending, s2) \<Rightarrow> ((nid, note) # pending, s2)))"

definition saveNote ::
  "env \<Rightarrow> string \<Rightarrow> string \<Rightarrow> string option \<Rightarrow> string \<times> note_in \<Rightarrow> state \<Rightarrow> string option \<times> state" where
  "saveNote e uid pid profileNameForMemory p s =
     (case p of
        (nid, note) \<Rightarrow>
          (case generateSimpleEmbedding e (orElse (note_entry note) []) of
             Inl message \<Rightarrow> (Some message, s)
           | Inr emb \<Rightarrow>
               let s1 = traced (KvSet (notePrefix uid pid @ nid))
                          (s\<lparr>kv := kv_set (notePrefix uid pid @ nid)
                                       (noteRecord e uid pid nid note emb) (kv s)\<rparr>);
                   s2 = traced (DbUpsert ''memory_items'')
                          (s1\<lparr>memory_items :=
                             upsert_row mem_id
                               (memoryRow e uid pid profileNameForMemory nid note emb)
                               (memory_items s1)\<rparr>)
               in (None, s2)))"

fun saveNotes ::
  "env \<Rightarrow> string \<Rightarrow> string \<Rightarrow> string option \<Rightarrow> (string \<times> note_in) list \<Rightarrow> state \<Rightarrow>
   string list \<times> state" where
  "saveNotes e uid pid pname [] s = ([], s)"
| "saveNotes e uid pid pname (p # ps) s =
     (case saveNote e uid pid pname p s of
        (failure, s1) \<Rightarrow>
          (case saveNotes e uid pid pname ps s1 of
             (failures, s2) \<Rightarrow>
               ((case failure of None \<Rightarrow> failures | Some message \<Rightarrow> message # failures), s2)))"

text \<open>
  \<open>maybeSingle\<close> gives the row when exactly one row matches, and no row otherwise.
\<close>

definition profileNameOf :: "string \<Rightarrow> string \<Rightarrow> profile_row list \<Rightarrow> string option" where
  "profileNameOf uid pid rows =
     (case filter (\<lambda>row. row_user_id row = uid \<and> row_id row = pid) rows of
        [row] \<Rightarrow> Some (row_name row)
      | _ \<Rightarrow> None)"

definition submit :: "env \<Rightarrow> submit_req \<Rightarrow> state \<Rightarrow> response \<times> state" where
  "submit e r s =
     (case getUser e (sub_accessToken r) of
        None \<Rightarrow> (Unauthorized, s)
      | Some uid \<Rightarrow>
          let pid = sub_profileId r;
              profileNameForMemory = profileNameOf uid pid (profiles s);
              s1 = traced (DbSelect ''profiles'') s;
              s2 = saveCategories e uid pid
                     (case sub_categories r of None \<Rightarrow> [] | Some cs \<Rightarrow> cs) s1
          in (case assignNoteIds e (case sub_notes r of None \<Rightarrow> [] | Some ns \<Rightarrow> ns) s2 of
                (pending, s3) \<Rightarrow>
                  (case saveNotes e uid pid profileNameForMemory (writeOrder e pending) s3 of
                     ([], s4) \<Rightarrow> (Submitted, s4)
                   | (message # _, s4) \<Rightarrow> (ServerError message, s4))))"

section \<open>Search\<close>

record search_req =
  q_accessToken :: "string option"
  q_query :: "string option"
  q_profileId :: "string option"
  q_profileName :: "string option"

text \<open>
  The resolution of \<open>profileName\<close> (the block that sets \<open>resolvedProfileId\<close>): the left
  result is the message of the 404 response, the right one is \<open>resolvedProfileId\<close>.
\<close>

definition nameMatches :: "string \<Rightarrow> item \<Rightarrow> bool" where
  "nameMatches profileName x =
     (case name x of
        None \<Rightarrow> False
      | Some n \<Rightarrow> n \<noteq> [] \<and> js_trim (toLowerCase n) = js_trim (toLowerCase profileName))"

definition resolveProfile ::
  "string \<Rightarrow> search_req \<Rightarrow> state \<Rightarrow> (string + string option) \<times> state" where
  "resolveProfile uid r s =
     (if \<not> truthy (q_profileId r) \<and> truthy (q_profileName r) then
        let profileName = orElse (q_profileName r) [];
            allProfiles = kv_getByPrefix (userPrefix uid) (kv s);
            s1 = traced (KvGetByPrefix (userPrefix uid)) s
        in (case filter (nameMatches profileName) allProfiles of
              [] \<Rightarrow> (Inl (''No profile found with name '' @ [CHR 0x27] @ profileName @ [CHR 0x27]), s1)
            | p # _ \<Rightarrow> (Inr (item_id p), s1))
      else (Inr (q_profileId r), s))"

text \<open>
  Scoring and ranking. A scored note is the note with its \<open>similarity\<close>. The comparator of
  the sort is \<open>(a, b) => b.similarity - a.similarity\<close>; a difference that is NaN counts as
  zero, as \<open>Array.prototype.sort\<close> takes it. The sort is stable, so for a comparator that
  orders its arguments its result is the one of a stable insertion: an element moves behind
  the elements that the comparator puts strictly before it, and behind no other. With a NaN
  among the similarities the comparator is not consistent, and the standard leaves the order
  to the engine; V8, the engine of Deno, leaves an array as it is when no element compares
  before its left neighbour, and so does this insertion.
\<close>

definition positive :: "number \<Rightarrow> bool" where
  "positive d = (case d of Num v \<Rightarrow> 0 < v | PosInf \<Rightarrow> True | NegInf \<Rightarrow> False | NaN \<Rightarrow> False)"

fun js_insert :: "('a \<Rightarrow> 'a \<Rightarrow> number) \<Rightarrow> 'a \<Rightarrow> 'a list \<Rightarrow> 'a list" where
  "js_insert cmp x [] = [x]"
| "js_insert cmp x (y # ys) =
     (if positive (cmp x y) then y # js_insert cmp x ys else x # y # ys)"

definition js_sort :: "('a \<Rightarrow> 'a \<Rightarrow> number) \<Rightarrow> 'a list \<Rightarrow> 'a list" where
  "js_sort cmp xs = foldr (js_insert cmp) xs []"

type_synonym scored = "item \<times> number"

definition similarity :: "scored \<Rightarrow> number" where
  "similarity sn = snd sn"

definition scoreNote :: "number list \<Rightarrow> item \<Rightarrow> scored" where
  "scoreNote queryEmbedding note =
     (note,
      cosineSimilarity (Some queryEmbedding)
        (Some (case embedding note of None \<Rightarrow> [] | Some v \<Rightarrow> v)))"

definition bySimilarity :: "scored \<Rightarrow> scored \<Rightarrow> number" where
  "bySimilarity a b = js_sub (similarity b) (similarity a)"

definition scoredNotes :: "number list \<Rightarrow> item list \<Rightarrow> scored list" where
  "scoredNotes queryEmbedding notes =
     take 10 (js_sort bySimilarity (map (scoreNote queryEmbedding) notes))"

definition relevantData :: "scored list \<Rightarrow> relevant list" where
  "relevantData sns =
     map (\<lambda>sn. \<lparr>noteId = item_id (fst sn), rel_entry = entry (fst sn),
                rel_profileId = profileId (fst sn),
                relevanceScore = js_mul (similarity sn) (Num 100)\<rparr>) sns"

text \<open>The candidate notes: the records under the prefix that have an \<open>entry\<close>.\<close>

definition searchPrefix :: "string \<Rightarrow> string option \<Rightarrow> string" where
  "searchPrefix uid resolvedProfileId =
     (if truthy resolvedProfileId then notePrefix uid (idString resolvedProfileId)
      else userPrefix uid)"

definition candidates :: "string \<Rightarrow> string option \<Rightarrow> kv_store \<Rightarrow> item list" where
  "candidates uid resolvedProfileId store =
     filter (\<lambda>x. entry x \<noteq> None) (kv_getByPrefix (searchPrefix uid resolvedProfileId) store)"

definition noNotesMessage :: string where
  "noNotesMessage = ''No notes found. Please add notes to profiles first.''"

definition search_gifts :: "env \<Rightarrow> search_req \<Rightarrow> state \<Rightarrow> response \<times> state" where
  "search_gifts e r s =
     (case getUser e (q_accessToken r) of
        None \<Rightarrow> (Unauthorized, s)
      | Some uid \<Rightarrow>
          if \<not> truthy (q_query r) then (BadRequest ''Query string is required'', s)
          else
            (case resolveProfile uid r s of
               (Inl message, s1) \<Rightarrow> (NotFound message, s1)
             | (Inr resolvedProfileId, s1) \<Rightarrow>
                 (case generateSimpleEmbedding e (orElse (q_query r) []) of
                    Inl message \<Rightarrow> (ServerError ''Failed to search for gifts'', s1)
                  | Inr queryEmbedding \<Rightarrow>
                      let notes = candidates uid resolvedProfileId (kv s1);
                          s2 = traced (KvGetByPrefix (searchPrefix uid resolvedProfileId)) s1
                      in if notes = [] then (NoNotes [] [] noNotesMessage, s2)
                         else
                           (SearchResult (orElse (q_query r) [])
                              (case resolvedProfileId of None \<Rightarrow> ''all-profiles'' | Some p \<Rightarrow> p)
                              (length notes)
                              (relevantData (scoredNotes queryEmbedding notes)),
                            s2))))"

section \<open>Notions of the statements\<close>

text \<open>
  The key of the ranking, used in the proofs only: the comparator orders two scored notes
  with finite similarities as \<open>sortKey\<close> does.
\<close>

definition sortKey :: "scored \<Rightarrow> real" where
  "sortKey sn = (case similarity sn of Num v \<Rightarrow> - v | _ \<Rightarrow> 0)"

text \<open>
  Notions used in the statements about deletion and submit: the records under a prefix are
  each stored under the key built from the prefix and their own id; the keys that the delete
  handler removes; the ids that a submit gives to the notes of a request, from the count of
  identifiers drawn so far.
\<close>

definition keyedById :: "string \<Rightarrow> kv_store \<Rightarrow> bool" where
  "keyedById pfx store =
     (\<forall>x\<in>set store. prefix pfx (fst x) \<longrightarrow> fst x = pfx @ idString (item_id (snd x)))"

definition keysToDelete :: "string \<Rightarrow> string \<Rightarrow> kv_store \<Rightarrow> string list" where
  "keysToDelete uid pid store =
     profileKey uid pid
     # map (\<lambda>n. notePrefix uid pid @ idString (item_id n)) (kv_getByPrefix (notePrefix uid pid) store)
     @ map (\<lambda>cat. categoryPrefix uid pid @ idString (item_id cat))
         (kv_getByPrefix (categoryPrefix uid pid) store)"

fun noteIds :: "env \<Rightarrow> note_in list \<Rightarrow> nat \<Rightarrow> string list" where
  "noteIds e [] c = []"
| "noteIds e (n # ns) c =
     (if truthy (note_id n) then orElse (note_id n) [] # noteIds e ns c
      else randomUUID e c # noteIds e ns (Suc c))"

text \<open>
  The keys that the handlers write, for a user id and a profile id without a colon: the
  profile key, and the note and category keys of the record's own id.
\<close>

definition colonFree :: "string \<Rightarrow> bool" where
  "colonFree s = (CHR '':'' \<notin> set s)"

definition wellKeyed :: "kv_store \<Rightarrow> bool" where
  "wellKeyed store =
     (\<forall>x\<in>set store. \<exists>uid pid. colonFree uid \<and> colonFree pid \<and>
        (fst x = profileKey uid pid \<or>
         fst x = notePrefix uid pid @ idString (item_id (snd x)) \<or>
         fst x = categoryPrefix uid pid @ idString (item_id (snd x))))"

section \<open>Example data\<close>

text \<open>A user \<open>u1\<close> with the access token \<open>token\<close>, and a few states of the stores.\<close>

definition env0 :: env where
  "env0 = \<lparr>getUser = (\<lambda>t. if t = Some ''token'' then Some ''u1'' else None),
            embeddingModel =
              Some (\<lambda>text. if text = ''fail'' then Inl ''unavailable''
                          else Inr (Some [Num 1, Num 0])),
            randomUUID = (\<lambda>n. ''uuid-'' @ replicate n CHR ''x''),
            now = ''2025-01-01'',
            writeOrder = (\<lambda>pending. pending)\<rparr>"

text \<open>
  A second environment, whose remote model answers every text with the vector \<open>[2, 0]\<close>, and
  the largest power of two among the doubles.
\<close>

definition env2 :: env where
  "env2 = env0\<lparr>embeddingModel := Some (\<lambda>text. Inr (Some [Num 2, Num 0]))\<rparr>"

definition huge :: real where
  "huge = 2 ^ 1023"

definition st0 :: state where
  "st0 = \<lparr>kv = [], profiles = [], memory_items = [], trace = [], uuid_count = 0\<rparr>"

definition storedNote :: "string \<Rightarrow> string \<Rightarrow> string \<Rightarrow> number list option \<Rightarrow> string \<times> item" where
  "storedNote pid nid txt emb =
     (notePrefix ''u1'' pid @ nid,
      blank\<lparr>item_id := Some nid, entry := Some txt, profileId := Some pid,
        userId := Some ''u1'', embedding := emb\<rparr>)"

definition searchReq :: "string option \<Rightarrow> string option \<Rightarrow> string option \<Rightarrow> search_req" where
  "searchReq q pid pname =
     \<lparr>q_accessToken = Some ''token'', q_query = q, q_profileId = pid, q_profileName = pname\<rparr>"

definition st3 :: state where
  "st3 = st0\<lparr>kv := [storedNote ''p1'' ''n1'' ''tea'' (Some [Num 0, Num 1]),
                      storedNote ''p1'' ''n2'' ''books'' (Some [Num 1, Num 0]),
                      storedNote ''p1'' ''n3'' ''socks'' None]\<rparr>"

text \<open>Three notes, the second with a component of the magnitude \<open>huge\<close>.\<close>

definition st_big :: state where
  "st_big = st0\<lparr>kv := [storedNote ''p1'' ''a'' ''tea'' (Some [Num 0, Num 1]),
                        storedNote ''p1'' ''b'' ''books'' (Some [Num huge, Num 0]),
                        storedNote ''p1'' ''c'' ''socks'' (Some [Num 1, Num 0])]\<rparr>"

definition st_cat :: state where
  "st_cat = st0\<lparr>kv :=
     [(profileKey ''u1'' ''p1'',
       blank\<lparr>item_id := Some ''p1'', name := Some ''Dad'', avatar := Some [],
         description := Some ''my father'', userId := Some ''u1''\<rparr>),
      (categoryPrefix ''u1'' ''p1'' @ ''c1'',
       blank\<lparr>item_id := Some ''c1'', name := Some ''Hobbies'', profileId := Some ''p1'',
         userId := Some ''u1''\<rparr>)]\<rparr>"

definition createReq :: "string option \<Rightarrow> string option \<Rightarrow> create_req" where
  "createReq n d = \<lparr>cp_accessToken = Some ''token'', cp_name = n, cp_avatar = None, cp_description = d\<rparr>"

text \<open>Three notes with the same embedding, in the order \<open>n1\<close>, \<open>n2\<close>, \<open>n3\<close>.\<close>

definition tied :: "item list" where
  "tied = map (\<lambda>nid. snd (storedNote ''p1'' nid ''tea'' (Some [Num 2, Num 0]))) [''n1'', ''n2'', ''n3'']"

text \<open>More example data: requests to submit, and the states they lead to.\<close>

definition submitReq :: "string \<Rightarrow> category_in list \<Rightarrow> note_in list \<Rightarrow> submit_req" where
  "submitReq pid cats ns =
     \<lparr>sub_accessToken = Some ''token'', sub_profileId = pid, sub_categories = Some cats,
      sub_notes = Some ns\<rparr>"

definition noteIn :: "string option \<Rightarrow> string \<Rightarrow> note_in" where
  "noteIn nid txt =
     \<lparr>note_id = nid, note_entry = Some txt, note_categoryId = None, note_createdAt = None\<rparr>"

definition st_nested :: state where
  "st_nested = snd (submit env0 (submitReq ''a:note:b'' [] [noteIn (Some ''n1'') ''tea'']) st0)"

definition st_p1 :: state where
  "st_p1 = snd (submit env0
     (submitReq ''p1'' [\<lparr>cat_id = Some ''c1'', cat_name = Some ''Hobbies'', cat_createdAt = None\<rparr>]
        [noteIn (Some ''n1'') ''tea'']) st0)"



section \<open>Proofs\<close>

subsection \<open>Trimming\<close>

text \<open>
  The number of steps is enough: the trimmed string neither begins nor ends with a
  white-space character.
\<close>

lemma whiteSpace_nonempty: "w \<in> set whiteSpace \<Longrightarrow> w \<noteq> []"
  unfolding whiteSpace_def by auto

lemma trimStartN_done:
  "length s \<le> k \<Longrightarrow> find (\<lambda>w. prefix w (trimStartN k s)) whiteSpace = None"
proof (induction k arbitrary: s)
  case 0
  then show ?case
    using whiteSpace_nonempty by (auto simp: find_None_iff)
next
  case (Suc k)
  show ?case
  proof (cases "find (\<lambda>w. prefix w s) whiteSpace")
    case None
    then show ?thesis by simp
  next
    case (Some w)
    then have "w \<in> set whiteSpace"
      by (auto simp: find_Some_iff)
    then have "w \<noteq> []"
      by (rule whiteSpace_nonempty)
    then have "length (drop (length w) s) \<le> k"
      using Suc.prems by (cases w) auto
    from Suc.IH [OF this] Some show ?thesis
      by simp
  qed
qed

lemma trimEndN_done:
  "length s \<le> k \<Longrightarrow> find (\<lambda>w. suffix w (trimEndN k s)) whiteSpace = None"
proof (induction k arbitrary: s)
  case 0
  then show ?case
    using whiteSpace_nonempty by (auto simp: find_None_iff)
next
  case (Suc k)
  show ?case
  proof (cases "find (\<lambda>w. suffix w s) whiteSpace")
    case None
    then show ?thesis by simp
  next
    case (Some w)
    then have "w \<in> set whiteSpace"
      by (auto simp: find_Some_iff)
    then have "w \<noteq> []"
      by (rule whiteSpace_nonempty)
    then have "length (take (length s - length w) s) \<le> k"
      using Suc.prems by (cases w) auto
    from Suc.IH [OF this] Some show ?thesis
      by simp
  qed
qed

lemma trimStartN_length: "length (trimStartN k s) \<le> length s"
proof (induction k arbitrary: s)
  case 0
  then show ?case by simp
next
  case (Suc k)
  show ?case
  proof (cases "find (\<lambda>w. prefix w s) whiteSpace")
    case None
    then show ?thesis by simp
  next
    case (Some w)
    have "length (trimStartN k (drop (length w) s)) \<le> length (drop (length w) s)"
      by (rule Suc.IH)
    with Some show ?thesis
      by simp
  qed
qed

lemma trimEndN_prefix: "prefix (trimEndN k s) s"
proof (induction k arbitrary: s)
  case 0
  then show ?case by simp
next
  case (Suc k)
  show ?case
  proof (cases "find (\<lambda>w. suffix w s) whiteSpace")
    case None
    then show ?thesis by simp
  next
    case (Some w)
    have "prefix (trimEndN k (take (length s - length w) s)) (take (length s - length w) s)"
      by (rule Suc.IH)
    then have "prefix (trimEndN k (take (length s - length w) s)) s"
      using take_is_prefix prefix_order.trans by blast
    with Some show ?thesis
      by simp
  qed
qed

lemma js_trim_trimmed:
  "find (\<lambda>w. prefix w (js_trim s)) whiteSpace = None \<and>
   find (\<lambda>w. suffix w (js_trim s)) whiteSpace = None"
proof
  let ?t = "trimStartN (length s) s"
  have start: "find (\<lambda>w. prefix w ?t) whiteSpace = None"
    by (rule trimStartN_done) simp
  have "\<not> prefix w (trimEndN (length s) ?t)" if "w \<in> set whiteSpace" for w
  proof
    assume "prefix w (trimEndN (length s) ?t)"
    then have "prefix w ?t"
      using trimEndN_prefix prefix_order.trans by blast
    with start that show False
      by (auto simp: find_None_iff)
  qed
  then show "find (\<lambda>w. prefix w (js_trim s)) whiteSpace = None"
    by (auto simp: js_trim_def find_None_iff)
  show "find (\<lambda>w. suffix w (js_trim s)) whiteSpace = None"
    unfolding js_trim_def by (rule trimEndN_done) (rule trimStartN_length)
qed

subsection \<open>Evaluation of \<open>trim\<close>\<close>

lemma whiteSpace_bytes:
  assumes "w \<in> set whiteSpace"
  shows "w \<noteq> []"
    and "hd w \<in> {CHR 0x09, CHR 0x0A, CHR 0x0B, CHR 0x0C, CHR 0x0D, CHR 0x20, CHR 0xC2, CHR 0xE1,
                 CHR 0xE2, CHR 0xE3, CHR 0xEF}"
    and "last w \<in> {CHR 0x09, CHR 0x0A, CHR 0x0B, CHR 0x0C, CHR 0x0D, CHR 0x20, CHR 0xA0, CHR 0x80,
                   CHR 0x81, CHR 0x82, CHR 0x83, CHR 0x84, CHR 0x85, CHR 0x86, CHR 0x87, CHR 0x88,
                   CHR 0x89, CHR 0x8A, CHR 0xA8, CHR 0xA9, CHR 0xAF, CHR 0x9F, CHR 0xBF}"
  using assms unfolding whiteSpace_def by auto

lemma prefix_hd: "prefix w s \<Longrightarrow> w \<noteq> [] \<Longrightarrow> hd w = hd s"
  by (cases w; cases s) simp_all

lemma suffix_last: "suffix w s \<Longrightarrow> w \<noteq> [] \<Longrightarrow> last w = last s"
  by (auto simp: suffix_def)

text \<open>
  A string that begins and ends with a byte that neither begins nor ends a white-space
  character is its own trimmed form.
\<close>

lemma js_trim_plain:
  assumes "s \<noteq> []"
    and "hd s \<notin> {CHR 0x09, CHR 0x0A, CHR 0x0B, CHR 0x0C, CHR 0x0D, CHR 0x20, CHR 0xC2, CHR 0xE1,
                  CHR 0xE2, CHR 0xE3, CHR 0xEF}"
    and "last s \<notin> {CHR 0x09, CHR 0x0A, CHR 0x0B, CHR 0x0C, CHR 0x0D, CHR 0x20, CHR 0xA0, CHR 0x80,
                   CHR 0x81, CHR 0x82, CHR 0x83, CHR 0x84, CHR 0x85, CHR 0x86, CHR 0x87, CHR 0x88,
                   CHR 0x89, CHR 0x8A, CHR 0xA8, CHR 0xA9, CHR 0xAF, CHR 0x9F, CHR 0xBF}"
  shows "js_trim s = s"
proof -
  have start: "find (\<lambda>w. prefix w s) whiteSpace = None"
    unfolding find_None_iff using assms(2) whiteSpace_bytes(1,2) prefix_hd by metis
  have ending: "find (\<lambda>w. suffix w s) whiteSpace = None"
    unfolding find_None_iff using assms(3) whiteSpace_bytes(1,3) suffix_last by metis
  obtain k where k: "length s = Suc k"
    using assms(1) by (cases s) auto
  show ?thesis
    by (simp add: js_trim_def k start ending)
qed

lemma js_trim_empty: "js_trim [] = []"
  by (simp add: js_trim_def)

lemma js_trim_blanks: "js_trim ''  '' = []"
  by (simp add: js_trim_def whiteSpace_def)

text \<open>
  White space outside ASCII is trimmed as well: a no-break space (U+00A0) before the text and
  an ideographic space (U+3000) after it.
\<close>

lemma js_trim_unicode:
  "js_trim ([CHR 0xC2, CHR 0xA0] @ ''Mom'' @ [CHR 0xE3, CHR 0x80, CHR 0x80]) = ''Mom''"
  by (simp add: js_trim_def whiteSpace_def suffix_to_prefix)

subsection \<open>Numbers\<close>

lemma MAX_VALUE_pos: "0 < MAX_VALUE"
  by (simp add: MAX_VALUE_def)

lemma MAX_VALUE_large: "1000 \<le> MAX_VALUE"
proof -
  have "(1000::real) \<le> (2 ^ 53 - 1) * 1"
    by simp
  also have "\<dots> \<le> (2 ^ 53 - 1) * 2 ^ 971"
    by (rule mult_left_mono) simp_all
  finally show ?thesis
    by (simp add: MAX_VALUE_def)
qed

lemma MAX_VALUE_less: "MAX_VALUE < 2 ^ 1024"
proof -
  have "((2::real) ^ 53 - 1) * 2 ^ 971 < 2 ^ 53 * 2 ^ 971"
    by (rule mult_strict_right_mono) simp_all
  also have "\<dots> = 2 ^ (53 + 971)"
    by (simp only: power_add)
  finally show ?thesis
    by (simp add: MAX_VALUE_def)
qed

lemma huge_le_MAX_VALUE: "huge \<le> MAX_VALUE"
proof -
  have "(2::real) ^ 52 * 2 ^ 971 \<le> (2 ^ 53 - 1) * 2 ^ 971"
    by (rule mult_right_mono) simp_all
  moreover have "(2::real) ^ 52 * 2 ^ 971 = 2 ^ (52 + 971)"
    by (simp only: power_add)
  ultimately show ?thesis
    by (simp add: MAX_VALUE_def huge_def)
qed

lemma huge_pos: "0 < huge"
  by (simp add: huge_def)

lemma fin_Num: "\<bar>r\<bar> \<le> 1000 \<Longrightarrow> fin r = Num r"
  using MAX_VALUE_large by (auto simp: fin_def)

lemma fin_not_NaN: "fin r \<noteq> NaN"
  by (simp add: fin_def)

lemma positive_fin: "positive (fin r) = (0 < r)"
  using MAX_VALUE_pos by (auto simp: fin_def positive_def)

lemma fin_overflow: "2 ^ 1024 \<le> r \<Longrightarrow> fin r = PosInf"
  using MAX_VALUE_less by (simp add: fin_def)

lemma fin_huge: "fin huge = Num huge"
  using huge_le_MAX_VALUE huge_pos by (simp add: fin_def)

lemma fin_twice_huge: "fin (2 * huge) = PosInf"
  by (rule fin_overflow) (simp add: huge_def)

lemma fin_huge_squared: "fin (huge * huge) = PosInf"
proof (rule fin_overflow)
  have "(2::real) ^ 1024 \<le> 2 ^ (1023 + 1023)"
    by (rule power_increasing) simp_all
  then show "(2::real) ^ 1024 \<le> huge * huge"
    by (simp only: power_add huge_def)
qed

lemma js_add_Num_cases:
  "js_add x y = Num r \<Longrightarrow> \<exists>a b. x = Num a \<and> y = Num b \<and> r = a + b"
  by (cases x; cases y) (auto simp: fin_def split: if_splits)

lemma js_mul_self_Num: "js_mul x x = Num r \<Longrightarrow> 0 \<le> r"
  by (cases x) (auto simp: fin_def split: if_splits)

text \<open>The definitions that the evaluation of a concrete call unfolds.\<close>

lemmas ex_defs = env0_def env2_def st0_def storedNote_def searchReq_def st3_def st_big_def blank_def
  st_cat_def createReq_def
  notePrefix_def userPrefix_def categoryPrefix_def profileKey_def truthy_def orElse_def idString_def traced_def

lemmas trim_eval = js_trim_plain js_trim_empty js_trim_blanks

lemmas search_defs = search_gifts_def resolveProfile_def generateSimpleEmbedding_def candidates_def
  searchPrefix_def kv_getByPrefix_def scoredNotes_def js_sort_def scoreNote_def cosineSimilarity_def
  bySimilarity_def js_sub_def positive_def similarity_def relevantData_def trim_eval
  noNotesMessage_def fin_Num fin_twice_huge fin_huge_squared

subsection \<open>Properties of the accumulation loop\<close>

lemma accumulate_zero_left:
  "\<forall>v\<in>set a. v = Num 0 \<Longrightarrow> accumulate a b (d, Num 0, mb) = (d', ma', mb') \<Longrightarrow> ma' = Num 0"
proof (induction a b "(d, Num 0, mb)" arbitrary: d mb rule: accumulate.induct)
  case (1 x xs y ys dotProduct magB)
  then show ?case by (simp add: fin_Num)
qed simp_all

lemma accumulate_zero_right:
  "\<forall>v\<in>set b. v = Num 0 \<Longrightarrow> accumulate a b (d, ma, Num 0) = (d', ma', mb') \<Longrightarrow> mb' = Num 0"
proof (induction a b "(d, ma, Num 0)" arbitrary: d ma rule: accumulate.induct)
  case (1 x xs y ys dotProduct magA)
  then show ?case by (simp add: fin_Num)
qed simp_all

text \<open>An accumulator that ends as a finite number was finite all along.\<close>

lemma accumulate_finite_start:
  "accumulate a b (d, ma, mb) = (Num d', Num sa, Num sb) \<Longrightarrow> \<exists>d0 a0 b0. d = Num d0 \<and> ma = Num a0 \<and> mb = Num b0"
proof (induction a arbitrary: b d ma mb)
  case Nil
  then show ?case by simp
next
  case (Cons x xs)
  show ?case
  proof (cases b)
    case Nil
    with Cons.prems show ?thesis by simp
  next
    case (Cons y ys)
    with Cons.prems have
      "accumulate xs ys (js_add d (js_mul x y), js_add ma (js_mul x x), js_add mb (js_mul y y)) =
         (Num d', Num sa, Num sb)"
      by simp
    from Cons.IH [OF this] obtain d0 a0 b0 where
      "js_add d (js_mul x y) = Num d0" "js_add ma (js_mul x x) = Num a0"
      "js_add mb (js_mul y y) = Num b0"
      by blast
    then show ?thesis
      using js_add_Num_cases [of d "js_mul x y" d0] js_add_Num_cases [of ma "js_mul x x" a0]
        js_add_Num_cases [of mb "js_mul y y" b0]
      by blast
  qed
qed

text \<open>A sum of squares that ends as a finite number is not negative.\<close>

lemma accumulate_squares:
  "accumulate a b (d, Num ma, Num mb) = (Num d', Num sa, Num sb) \<Longrightarrow> 0 \<le> ma \<Longrightarrow> 0 \<le> mb \<Longrightarrow>
   0 \<le> sa \<and> 0 \<le> sb"
proof (induction a arbitrary: b d ma mb)
  case Nil
  then show ?case by simp
next
  case (Cons x xs)
  show ?case
  proof (cases b)
    case Nil
    with Cons.prems show ?thesis by simp
  next
    case (Cons y ys)
    with Cons.prems have run:
      "accumulate xs ys (js_add d (js_mul x y), js_add (Num ma) (js_mul x x),
         js_add (Num mb) (js_mul y y)) = (Num d', Num sa, Num sb)"
      by simp
    from accumulate_finite_start [OF run] obtain d1 a1 b1 where
      d1: "js_add d (js_mul x y) = Num d1" and a1: "js_add (Num ma) (js_mul x x) = Num a1"
      and b1: "js_add (Num mb) (js_mul y y) = Num b1"
      by blast
    have "0 \<le> a1"
      using js_add_Num_cases [OF a1] js_mul_self_Num [of x] Cons.prems(2) by auto
    moreover have "0 \<le> b1"
      using js_add_Num_cases [OF b1] js_mul_self_Num [of y] Cons.prems(3) by auto
    ultimately show ?thesis
      using Cons.IH [of ys "Num d1" a1 b1] run d1 a1 b1 by simp
  qed
qed

lemma abs_product_le_one:
  fixes p q :: real
  shows "\<bar>p\<bar> \<le> 1 \<Longrightarrow> \<bar>q\<bar> \<le> 1 \<Longrightarrow> \<bar>p * q\<bar> \<le> 1"
  unfolding abs_mult by (rule mult_le_one) simp_all

text \<open>Vectors of at most 1000 components of magnitude at most 1 keep the loop finite.\<close>

lemma accumulate_unit:
  assumes "\<forall>v\<in>set a. \<exists>r. v = Num r \<and> \<bar>r\<bar> \<le> 1"
    and "\<forall>v\<in>set b. \<exists>r. v = Num r \<and> \<bar>r\<bar> \<le> 1"
    and "\<bar>d\<bar> \<le> c" and "\<bar>ma\<bar> \<le> c" and "\<bar>mb\<bar> \<le> c"
    and "c + real (length a) \<le> 1000"
  shows "\<exists>d' sa sb. accumulate a b (Num d, Num ma, Num mb) = (Num d', Num sa, Num sb)"
  using assms
proof (induction a arbitrary: b d ma mb c)
  case Nil
  then show ?case by simp
next
  case (Cons x xs)
  show ?case
  proof (cases b)
    case Nil
    then show ?thesis by simp
  next
    case (Cons y ys)
    obtain p where x: "x = Num p" and p: "\<bar>p\<bar> \<le> 1"
      using Cons.prems(1) by auto
    obtain q where y: "y = Num q" and q: "\<bar>q\<bar> \<le> 1"
      using Cons.prems(2) Cons by auto
    have pq: "\<bar>p * q\<bar> \<le> 1" and pp: "\<bar>p * p\<bar> \<le> 1" and qq: "\<bar>q * q\<bar> \<le> 1"
      using p q abs_product_le_one by blast+
    have c: "c + 1 \<le> 1000" "0 \<le> c"
      using Cons.prems(3,6) by auto
    have steps: "js_add (Num d) (js_mul x y) = Num (d + p * q)"
      "js_add (Num ma) (js_mul x x) = Num (ma + p * p)"
      "js_add (Num mb) (js_mul y y) = Num (mb + q * q)"
    proof -
      have "\<bar>d + p * q\<bar> \<le> 1000" "\<bar>ma + p * p\<bar> \<le> 1000" "\<bar>mb + q * q\<bar> \<le> 1000"
        using pq pp qq c Cons.prems(3-5) by linarith+
      then show "js_add (Num d) (js_mul x y) = Num (d + p * q)"
        "js_add (Num ma) (js_mul x x) = Num (ma + p * p)"
        "js_add (Num mb) (js_mul y y) = Num (mb + q * q)"
        using pq pp qq by (simp_all add: x y fin_Num)
    qed
    have "\<exists>d' sa sb. accumulate xs ys (Num (d + p * q), Num (ma + p * p), Num (mb + q * q)) =
        (Num d', Num sa, Num sb)"
    proof (rule Cons.IH [where c = "c + 1"])
      show "\<forall>v\<in>set xs. \<exists>r. v = Num r \<and> \<bar>r\<bar> \<le> 1"
        using Cons.prems(1) by simp
      show "\<forall>v\<in>set ys. \<exists>r. v = Num r \<and> \<bar>r\<bar> \<le> 1"
        using Cons.prems(2) Cons by simp
      show "\<bar>d + p * q\<bar> \<le> c + 1" "\<bar>ma + p * p\<bar> \<le> c + 1" "\<bar>mb + q * q\<bar> \<le> c + 1"
        using pq pp qq Cons.prems(3-5) by linarith+
      show "c + 1 + real (length xs) \<le> 1000"
        using Cons.prems(6) by simp
    qed
    then show ?thesis
      using steps Cons by simp
  qed
qed

lemma cosineSimilarity_finite_loop:
  assumes "accumulate a b (Num 0, Num 0, Num 0) = (Num d, Num sa, Num sb)"
  shows "cosineSimilarity (Some a) (Some b) \<noteq> NaN"
proof -
  have nonneg: "0 \<le> sa" "0 \<le> sb"
    using accumulate_squares [OF assms] by simp_all
  have "js_div (Num d) (js_mul (Num (sqrt sa)) (Num (sqrt sb))) \<noteq> NaN"
    if "sqrt sa \<noteq> 0" "sqrt sb \<noteq> 0"
    using that by (auto simp: fin_def)
  then show ?thesis
    using assms nonneg by (auto simp: cosineSimilarity_def Let_def)
qed

text \<open>
  C2, amended. \<open>cosineSimilarity\<close> returns exactly 0 when an argument is missing or empty,
  when the two lengths differ, and when one of the vectors has only zero components. It does
  not return NaN when the three sums of its loop end as finite numbers, which they do for
  vectors of at most 1000 components of magnitude at most 1.
\<close>

theorem cosineSimilarity_degenerate:
  "(a = None \<or> b = None \<or> a = Some [] \<or> b = Some [] \<longrightarrow> cosineSimilarity a b = Num 0) \<and>
   (\<forall>x y. a = Some x \<and> b = Some y \<and> length x \<noteq> length y \<longrightarrow> cosineSimilarity a b = Num 0) \<and>
   (\<forall>x y. a = Some x \<and> b = Some y \<and> ((\<forall>v\<in>set x. v = Num 0) \<or> (\<forall>v\<in>set y. v = Num 0)) \<longrightarrow>
      cosineSimilarity a b = Num 0) \<and>
   (\<forall>x y d sa sb. a = Some x \<and> b = Some y \<and>
      accumulate x y (Num 0, Num 0, Num 0) = (Num d, Num sa, Num sb) \<longrightarrow>
      cosineSimilarity a b \<noteq> NaN) \<and>
   (\<forall>x y. a = Some x \<and> b = Some y \<and> length x \<le> 1000 \<and>
      (\<forall>v\<in>set x \<union> set y. \<exists>r. v = Num r \<and> \<bar>r\<bar> \<le> 1) \<longrightarrow>
      cosineSimilarity a b \<noteq> NaN)"
proof (intro conjI allI impI)
  assume "a = None \<or> b = None \<or> a = Some [] \<or> b = Some []"
  then show "cosineSimilarity a b = Num 0"
    by (auto simp: cosineSimilarity_def split: option.splits)
next
  fix x y
  assume "a = Some x \<and> b = Some y \<and> length x \<noteq> length y"
  then show "cosineSimilarity a b = Num 0"
    by (simp add: cosineSimilarity_def)
next
  fix x y
  assume h: "a = Some x \<and> b = Some y \<and> ((\<forall>v\<in>set x. v = Num 0) \<or> (\<forall>v\<in>set y. v = Num 0))"
  obtain d sa sb where acc: "accumulate x y (Num 0, Num 0, Num 0) = (d, sa, sb)"
    by (cases "accumulate x y (Num 0, Num 0, Num 0)") auto
  from h have "sa = Num 0 \<or> sb = Num 0"
    using accumulate_zero_left [OF _ acc] accumulate_zero_right [OF _ acc] by blast
  with h acc show "cosineSimilarity a b = Num 0"
    by (auto simp: cosineSimilarity_def Let_def)
next
  fix x y d sa sb
  assume "a = Some x \<and> b = Some y \<and>
      accumulate x y (Num 0, Num 0, Num 0) = (Num d, Num sa, Num sb)"
  then show "cosineSimilarity a b \<noteq> NaN"
    using cosineSimilarity_finite_loop by simp
next
  fix x y
  assume h: "a = Some x \<and> b = Some y \<and> length x \<le> 1000 \<and>
      (\<forall>v\<in>set x \<union> set y. \<exists>r. v = Num r \<and> \<bar>r\<bar> \<le> 1)"
  then have "\<exists>d sa sb. accumulate x y (Num 0, Num 0, Num 0) = (Num d, Num sa, Num sb)"
    by (intro accumulate_unit [where c = 0]) auto
  with h show "cosineSimilarity a b \<noteq> NaN"
    using cosineSimilarity_finite_loop by auto
qed

theorem cosineSimilarity_degenerate_witness:
  "cosineSimilarity (Some [Num 0, Num 0]) (Some [Num 3, Num 4]) = Num 0 \<and>
   cosineSimilarity (Some [Num 3, Num 4]) (Some [Num 0, Num 0]) = Num 0 \<and>
   cosineSimilarity (Some [Num 1, Num 2, Num 3]) (Some [Num 1, Num 2]) = Num 0 \<and>
   cosineSimilarity (Some []) (Some [Num 1]) = Num 0 \<and>
   cosineSimilarity None (Some [Num 1]) = Num 0 \<and>
   cosineSimilarity (Some [Num 1, Num 0]) (Some [Num 2, Num 0]) = Num 1 \<and>
   cosineSimilarity (Some [Num 1, Num 0]) (Some [Num 0, Num 1]) \<noteq> NaN"
proof -
  have "cosineSimilarity (Some [Num 1, Num 0]) (Some [Num 2, Num 0]) = Num 1"
    by (simp add: cosineSimilarity_def fin_Num)
  moreover have "accumulate [Num 1, Num 0] [Num 0, Num 1] (Num 0, Num 0, Num 0) = (Num 0, Num 1, Num 1)"
    by (simp add: fin_Num)
  ultimately show ?thesis
    using cosineSimilarity_degenerate [of "Some [Num 0, Num 0]" "Some [Num 3, Num 4]"]
      cosineSimilarity_degenerate [of "Some [Num 3, Num 4]" "Some [Num 0, Num 0]"]
      cosineSimilarity_degenerate [of "Some [Num 1, Num 2, Num 3]" "Some [Num 1, Num 2]"]
      cosineSimilarity_degenerate [of "Some []" "Some [Num 1]"]
      cosineSimilarity_degenerate [of None "Some [Num 1]"]
      cosineSimilarity_degenerate [of "Some [Num 1, Num 0]" "Some [Num 0, Num 1]"]
    by simp
qed

text \<open>
  C2, counterexample. For the vector \<open>[2^1023, 2^1023]\<close> against itself every product
  overflows: the dot product and both magnitudes are \<open>Infinity\<close>, and the result
  \<open>Infinity / Infinity\<close> is NaN.
\<close>

theorem cosineSimilarity_overflow_NaN:
  "cosineSimilarity (Some [Num huge, Num huge]) (Some [Num huge, Num huge]) = NaN"
  by (simp add: cosineSimilarity_def fin_huge_squared)

subsection \<open>Ranking\<close>

lemma mset_js_insert: "mset (js_insert cmp x ys) = add_mset x (mset ys)"
  by (induction ys) simp_all

lemma mset_js_sort: "mset (js_sort cmp xs) = mset xs"
  by (induction xs) (simp_all add: js_sort_def mset_js_insert)

lemma length_js_sort: "length (js_sort cmp xs) = length xs"
  using mset_js_sort [of cmp xs] by (metis size_mset)

lemma set_js_sort: "set (js_sort cmp xs) = set xs"
  using mset_js_sort [of cmp xs] by (rule mset_eq_setD)

lemma bySimilarity_Num:
  "similarity x = Num a \<Longrightarrow> similarity y = Num b \<Longrightarrow> positive (bySimilarity x y) = (a < b)"
  by (simp add: bySimilarity_def js_sub_def positive_fin)

lemma js_insert_insort_key:
  "\<forall>z\<in>set (x # ys). \<exists>v. similarity z = Num v \<Longrightarrow>
   js_insert bySimilarity x ys = insort_key sortKey x ys"
proof (induction ys)
  case Nil
  then show ?case by simp
next
  case (Cons y ys)
  then obtain a b where ab: "similarity x = Num a" "similarity y = Num b"
    by auto
  have keys: "sortKey x = - a" "sortKey y = - b"
    using ab by (simp_all add: sortKey_def)
  have "js_insert bySimilarity x ys = insort_key sortKey x ys"
    using Cons by simp
  then show ?case
    using ab keys by (auto simp: bySimilarity_Num)
qed

lemma js_sort_sort_key:
  "\<forall>z\<in>set xs. \<exists>v. similarity z = Num v \<Longrightarrow> js_sort bySimilarity xs = sort_key sortKey xs"
proof (induction xs)
  case Nil
  then show ?case by (simp add: js_sort_def)
next
  case (Cons x xs)
  then have ih: "js_sort bySimilarity xs = sort_key sortKey xs"
    by simp
  have "\<forall>z\<in>set (x # sort_key sortKey xs). \<exists>v. similarity z = Num v"
    using Cons.prems by simp
  then have "js_insert bySimilarity x (sort_key sortKey xs) = insort_key sortKey x (sort_key sortKey xs)"
    by (rule js_insert_insort_key)
  with ih show ?case
    by (simp add: js_sort_def)
qed

lemma filter_similarity_key:
  assumes "\<forall>z\<in>set xs. \<exists>v. similarity z = Num v"
  shows "filter (\<lambda>sn. snd sn = Num v) xs = filter (\<lambda>sn. sortKey sn = - v) xs"
  using assms by (induction xs) (auto simp: sortKey_def similarity_def)

lemma filter_similarity_other:
  assumes "\<forall>z\<in>set xs. \<exists>v. similarity z = Num v" and "\<forall>r. v \<noteq> Num r"
  shows "filter (\<lambda>sn. snd sn = v) xs = []"
  using assms by (induction xs) (auto simp: similarity_def)

text \<open>
  The stable descending order of a list of scored notes whose similarities are all finite
  numbers.
\<close>

lemma js_sort_finite:
  assumes fin: "\<forall>z\<in>set xs. \<exists>v. similarity z = Num v"
  shows "sorted_wrt (\<lambda>a b. \<exists>x y. snd a = Num x \<and> snd b = Num y \<and> y \<le> x) (js_sort bySimilarity xs)"
    and "filter (\<lambda>sn. snd sn = v) (js_sort bySimilarity xs) = filter (\<lambda>sn. snd sn = v) xs"
proof -
  let ?full = "sort_key sortKey xs"
  have full: "js_sort bySimilarity xs = ?full"
    using fin by (rule js_sort_sort_key)
  have fin': "\<forall>z\<in>set ?full. \<exists>v. similarity z = Num v"
    using fin by simp
  have "sorted (map sortKey ?full)"
    by (rule sorted_sort_key)
  then have "sorted_wrt (\<lambda>a b. sortKey a \<le> sortKey b) ?full"
    by (simp add: sorted_map)
  then have "sorted_wrt (\<lambda>a b. \<exists>x y. snd a = Num x \<and> snd b = Num y \<and> y \<le> x) ?full"
  proof (rule sorted_wrt_mono_rel [rotated])
    fix a b
    assume "a \<in> set ?full" "b \<in> set ?full" "sortKey a \<le> sortKey b"
    moreover from this fin' obtain x y where "similarity a = Num x" "similarity b = Num y"
      by blast
    ultimately show "\<exists>x y. snd a = Num x \<and> snd b = Num y \<and> y \<le> x"
      by (simp add: sortKey_def similarity_def)
  qed
  then show "sorted_wrt (\<lambda>a b. \<exists>x y. snd a = Num x \<and> snd b = Num y \<and> y \<le> x) (js_sort bySimilarity xs)"
    by (simp only: full)
  show "filter (\<lambda>sn. snd sn = v) (js_sort bySimilarity xs) = filter (\<lambda>sn. snd sn = v) xs"
  proof (cases "\<exists>r. v = Num r")
    case True
    then obtain r where "v = Num r"
      by blast
    then show ?thesis
      using filter_similarity_key [OF fin, of r] filter_similarity_key [OF fin', of r]
        sort_key_stable [of sortKey "- r" xs] full by simp
  next
    case False
    then show ?thesis
      using filter_similarity_other [OF fin, of v] filter_similarity_other [OF fin', of v] full
      by simp
  qed
qed

subsection \<open>The search handler\<close>

lemma resolveProfile_stores:
  "resolveProfile uid r s = (res, s1) \<Longrightarrow>
   kv s1 = kv s \<and> profiles s1 = profiles s \<and> memory_items s1 = memory_items s \<and>
   uuid_count s1 = uuid_count s"
  by (auto simp: resolveProfile_def traced_def Let_def split: if_splits list.splits)

lemma resolveProfile_explicit:
  "truthy (q_profileId r) \<Longrightarrow> resolveProfile uid r s = (Inr (q_profileId r), s)"
  by (simp add: resolveProfile_def)

lemma search_gifts_reached:
  assumes "getUser e (q_accessToken r) = Some uid"
    and "truthy (q_query r)"
    and "resolveProfile uid r s = (Inr resolved, s1)"
    and "generateSimpleEmbedding e (orElse (q_query r) []) = Inr queryEmbedding"
  shows "search_gifts e r s =
     (if candidates uid resolved (kv s) = [] then NoNotes [] [] noNotesMessage
      else SearchResult (orElse (q_query r) [])
             (case resolved of None \<Rightarrow> ''all-profiles'' | Some p \<Rightarrow> p)
             (length (candidates uid resolved (kv s)))
             (relevantData (scoredNotes queryEmbedding (candidates uid resolved (kv s)))),
      traced (KvGetByPrefix (searchPrefix uid resolved)) s1)"
  using assms resolveProfile_stores [OF assms(3)]
  by (simp add: search_gifts_def Let_def)

text \<open>
  The query is embedded before the candidates are read: a call whose query embedding fails
  ends with the 500 response and never selects candidates.
\<close>

lemma search_gifts_embedding_fails:
  assumes "getUser e (q_accessToken r) = Some uid"
    and "truthy (q_query r)"
    and "resolveProfile uid r s = (Inr resolved, s1)"
    and "generateSimpleEmbedding e (orElse (q_query r) []) = Inl message"
  shows "search_gifts e r s = (ServerError ''Failed to search for gifts'', s1)"
  using assms by (simp add: search_gifts_def)

text \<open>
  C1, amended. A search that comes to rank its candidates (it is authorised, has a query
  string, its scope resolves and its query embedding is produced) answers with the "no notes"
  body when there is no candidate, and otherwise with the number \<open>n\<close> of candidates and
  with \<open>min 10 n\<close> results. The results are
  the first elements of a rearrangement of all candidates, each scored with its cosine
  similarity to the query embedding (an absent embedding counts as the empty vector), and
  each result carries the id, the entry and the profile id of its candidate and 100 times its
  similarity. When all similarities are finite numbers, the rearrangement is in descending
  order of similarity, and the candidates of any one similarity stand in their original
  order.
\<close>

theorem search_ranking:
  assumes "getUser e (q_accessToken r) = Some uid"
    and "truthy (q_query r)"
    and "resolveProfile uid r s = (Inr resolved, s1)"
    and "generateSimpleEmbedding e (orElse (q_query r) []) = Inr queryEmbedding"
  shows "\<exists>ranked rest.
     fst (search_gifts e r s) =
       (if candidates uid resolved (kv s) = [] then NoNotes [] [] noNotesMessage
        else SearchResult (orElse (q_query r) [])
               (case resolved of None \<Rightarrow> ''all-profiles'' | Some p \<Rightarrow> p)
               (length (candidates uid resolved (kv s)))
               (map (\<lambda>sn. \<lparr>noteId = item_id (fst sn), rel_entry = entry (fst sn),
                            rel_profileId = profileId (fst sn),
                            relevanceScore = js_mul (snd sn) (Num 100)\<rparr>) ranked)) \<and>
     length ranked = min 10 (length (candidates uid resolved (kv s))) \<and>
     mset (ranked @ rest) =
       mset (map (\<lambda>n. (n, cosineSimilarity (Some queryEmbedding)
                           (Some (case embedding n of None \<Rightarrow> [] | Some v \<Rightarrow> v))))
               (candidates uid resolved (kv s))) \<and>
     ((\<forall>sn\<in>set (ranked @ rest). \<exists>v. snd sn = Num v) \<longrightarrow>
        sorted_wrt (\<lambda>a b. \<exists>x y. snd a = Num x \<and> snd b = Num y \<and> y \<le> x) (ranked @ rest) \<and>
        (\<forall>v. filter (\<lambda>sn. snd sn = v) (ranked @ rest) =
             filter (\<lambda>sn. snd sn = v)
               (map (\<lambda>n. (n, cosineSimilarity (Some queryEmbedding)
                              (Some (case embedding n of None \<Rightarrow> [] | Some v \<Rightarrow> v))))
                  (candidates uid resolved (kv s)))))"
proof -
  let ?cands = "candidates uid resolved (kv s)"
  let ?scored = "map (\<lambda>n. (n, cosineSimilarity (Some queryEmbedding)
                           (Some (case embedding n of None \<Rightarrow> [] | Some v \<Rightarrow> v)))) ?cands"
  let ?full = "js_sort bySimilarity ?scored"
  have scored: "map (scoreNote queryEmbedding) ?cands = ?scored"
    by (simp add: scoreNote_def)
  have ranked: "scoredNotes queryEmbedding ?cands = take 10 ?full"
    by (simp only: scoredNotes_def scored)
  have data: "relevantData (take 10 ?full) =
      map (\<lambda>sn. \<lparr>noteId = item_id (fst sn), rel_entry = entry (fst sn),
                   rel_profileId = profileId (fst sn),
                   relevanceScore = js_mul (snd sn) (Num 100)\<rparr>) (take 10 ?full)"
    by (simp only: relevantData_def similarity_def)
  have response: "fst (search_gifts e r s) =
       (if ?cands = [] then NoNotes [] [] noNotesMessage
        else SearchResult (orElse (q_query r) [])
               (case resolved of None \<Rightarrow> ''all-profiles'' | Some p \<Rightarrow> p)
               (length ?cands)
               (map (\<lambda>sn. \<lparr>noteId = item_id (fst sn), rel_entry = entry (fst sn),
                            rel_profileId = profileId (fst sn),
                            relevanceScore = js_mul (snd sn) (Num 100)\<rparr>) (take 10 ?full)))"
    unfolding search_gifts_reached [OF assms] ranked data by (rule fst_conv)
  have split: "take 10 ?full @ drop 10 ?full = ?full"
    by simp
  have len: "length (take 10 ?full) = min 10 (length ?cands)"
    by (simp add: length_js_sort min.commute)
  have ms: "mset ?full = mset ?scored"
    by (rule mset_js_sort)
  have ordered: "sorted_wrt (\<lambda>a b. \<exists>x y. snd a = Num x \<and> snd b = Num y \<and> y \<le> x) ?full \<and>
        (\<forall>v. filter (\<lambda>sn. snd sn = v) ?full = filter (\<lambda>sn. snd sn = v) ?scored)"
    if "\<forall>sn\<in>set ?full. \<exists>v. snd sn = Num v"
  proof -
    have "\<forall>z\<in>set ?scored. \<exists>v. similarity z = Num v"
      using that unfolding set_js_sort similarity_def .
    then show ?thesis
      using js_sort_finite [of ?scored] by blast
  qed
  show ?thesis
  proof (rule exI [of _ "take 10 ?full"], rule exI [of _ "drop 10 ?full"], intro conjI)
    show "fst (search_gifts e r s) =
       (if ?cands = [] then NoNotes [] [] noNotesMessage
        else SearchResult (orElse (q_query r) [])
               (case resolved of None \<Rightarrow> ''all-profiles'' | Some p \<Rightarrow> p)
               (length ?cands)
               (map (\<lambda>sn. \<lparr>noteId = item_id (fst sn), rel_entry = entry (fst sn),
                            rel_profileId = profileId (fst sn),
                            relevanceScore = js_mul (snd sn) (Num 100)\<rparr>) (take 10 ?full)))"
      by (rule response)
    show "length (take 10 ?full) = min 10 (length ?cands)"
      by (rule len)
    show "mset (take 10 ?full @ drop 10 ?full) = mset ?scored"
      unfolding split by (rule ms)
    show "(\<forall>sn\<in>set (take 10 ?full @ drop 10 ?full). \<exists>v. snd sn = Num v) \<longrightarrow>
        sorted_wrt (\<lambda>a b. \<exists>x y. snd a = Num x \<and> snd b = Num y \<and> y \<le> x)
          (take 10 ?full @ drop 10 ?full) \<and>
        (\<forall>v. filter (\<lambda>sn. snd sn = v) (take 10 ?full @ drop 10 ?full) =
             filter (\<lambda>sn. snd sn = v) ?scored)"
      unfolding split using ordered by blast
  qed
qed

theorem search_ranking_witness:
  "fst (search_gifts env0 (searchReq (Some ''x'') (Some ''p1'') None) st3) =
     SearchResult ''x'' ''p1'' 3
       [\<lparr>noteId = Some ''n2'', rel_entry = Some ''books'', rel_profileId = Some ''p1'',
          relevanceScore = Num 100\<rparr>,
        \<lparr>noteId = Some ''n1'', rel_entry = Some ''tea'', rel_profileId = Some ''p1'',
          relevanceScore = Num 0\<rparr>,
        \<lparr>noteId = Some ''n3'', rel_entry = Some ''socks'', rel_profileId = Some ''p1'',
          relevanceScore = Num 0\<rparr>] \<and>
   (\<exists>(ranked :: scored list) rest. length ranked = 3 \<and>
      sorted_wrt (\<lambda>a b. \<exists>x y. snd a = Num x \<and> snd b = Num y \<and> y \<le> x) (ranked @ rest))"
proof -
  let ?r = "searchReq (Some ''x'') (Some ''p1'') None"
  have 1: "getUser env0 (q_accessToken ?r) = Some ''u1''"
    by (simp add: ex_defs)
  have 2: "truthy (q_query ?r)"
    by (simp add: ex_defs)
  have 3: "resolveProfile ''u1'' ?r st3 = (Inr (Some ''p1''), st3)"
    by (simp add: ex_defs resolveProfile_def)
  have 4: "generateSimpleEmbedding env0 (orElse (q_query ?r) []) = Inr [Num 1, Num 0]"
    by (simp add: ex_defs generateSimpleEmbedding_def trim_eval)
  have cands: "candidates ''u1'' (Some ''p1'') (kv st3) = map snd (kv st3)"
    by (simp add: ex_defs candidates_def kv_getByPrefix_def searchPrefix_def)
  have scored: "\<forall>sn\<in>set (map (\<lambda>n. (n, cosineSimilarity (Some [Num 1, Num 0])
                           (Some (case embedding n of None \<Rightarrow> [] | Some v \<Rightarrow> v))))
               (map snd (kv st3))). \<exists>v. snd sn = Num v"
    by (simp add: ex_defs cosineSimilarity_def fin_Num)
  have response: "fst (search_gifts env0 ?r st3) =
     SearchResult ''x'' ''p1'' 3
       [\<lparr>noteId = Some ''n2'', rel_entry = Some ''books'', rel_profileId = Some ''p1'',
          relevanceScore = Num 100\<rparr>,
        \<lparr>noteId = Some ''n1'', rel_entry = Some ''tea'', rel_profileId = Some ''p1'',
          relevanceScore = Num 0\<rparr>,
        \<lparr>noteId = Some ''n3'', rel_entry = Some ''socks'', rel_profileId = Some ''p1'',
          relevanceScore = Num 0\<rparr>]"
    by (simp add: ex_defs search_defs)
  from search_ranking [OF 1 2 3 4] obtain ranked rest where
    len: "length ranked = min 10 (length (candidates ''u1'' (Some ''p1'') (kv st3)))"
    and ms: "mset (ranked @ rest) =
       mset (map (\<lambda>n. (n, cosineSimilarity (Some [Num 1, Num 0])
                           (Some (case embedding n of None \<Rightarrow> [] | Some v \<Rightarrow> v))))
               (candidates ''u1'' (Some ''p1'') (kv st3)))"
    and ordered: "(\<forall>sn\<in>set (ranked @ rest). \<exists>v. snd sn = Num v) \<longrightarrow>
        sorted_wrt (\<lambda>a b. \<exists>x y. snd a = Num x \<and> snd b = Num y \<and> y \<le> x) (ranked @ rest) \<and>
        (\<forall>v. filter (\<lambda>sn. snd sn = v) (ranked @ rest) =
             filter (\<lambda>sn. snd sn = v)
               (map (\<lambda>n. (n, cosineSimilarity (Some [Num 1, Num 0])
                              (Some (case embedding n of None \<Rightarrow> [] | Some v \<Rightarrow> v))))
                  (candidates ''u1'' (Some ''p1'') (kv st3))))"
    by blast
  have "\<forall>sn\<in>set (ranked @ rest). \<exists>v. snd sn = Num v"
    using scored unfolding mset_eq_setD [OF ms] cands .
  with ordered have "sorted_wrt (\<lambda>a b. \<exists>x y. snd a = Num x \<and> snd b = Num y \<and> y \<le> x) (ranked @ rest)"
    by (rule conjunct1 [OF mp])
  moreover have "length ranked = 3"
    using len unfolding cands by (simp add: ex_defs)
  ultimately have "length ranked = 3 \<and>
      sorted_wrt (\<lambda>a b. \<exists>x y. snd a = Num x \<and> snd b = Num y \<and> y \<le> x) (ranked @ rest)"
    by simp
  then have "\<exists>(ranked :: scored list) rest. length ranked = 3 \<and>
      sorted_wrt (\<lambda>a b. \<exists>x y. snd a = Num x \<and> snd b = Num y \<and> y \<le> x) (ranked @ rest)"
    by blast
  with response show ?thesis
    by (rule conjI)
qed

text \<open>
  C1, counterexample. The query embedding is \<open>[2, 0]\<close>, and the second of three notes has
  the embedding \<open>[2^1023, 0]\<close>: its dot product and its magnitude overflow, and its
  similarity is NaN. Every comparison with it gives NaN, which the sort takes as zero, so the
  notes stay in their stored order, with the scores 0, NaN and 100: the results are not in
  descending order.
\<close>

theorem search_ranking_not_descending:
  "fst (search_gifts env2 (searchReq (Some ''x'') (Some ''p1'') None) st_big) =
     SearchResult ''x'' ''p1'' 3
       [\<lparr>noteId = Some ''a'', rel_entry = Some ''tea'', rel_profileId = Some ''p1'',
          relevanceScore = Num 0\<rparr>,
        \<lparr>noteId = Some ''b'', rel_entry = Some ''books'', rel_profileId = Some ''p1'',
          relevanceScore = NaN\<rparr>,
        \<lparr>noteId = Some ''c'', rel_entry = Some ''socks'', rel_profileId = Some ''p1'',
          relevanceScore = Num 100\<rparr>]"
  by (simp add: ex_defs search_defs)

text \<open>
  C9, counterexample. The store is empty, so the candidate set of the search is empty; the
  embedding of the query \<open>fail\<close> is rejected, and the search answers with the 500 response.
\<close>

theorem search_empty_candidates_embedding_fails:
  "candidates ''u1'' None (kv st0) = [] \<and>
   search_gifts env0 (searchReq (Some ''fail'') None None) st0 =
     (ServerError ''Failed to search for gifts'', st0)"
  by (simp add: ex_defs search_defs)

text \<open>
  C9, amended. In an authorised search with a query string, a profile name that matches no
  record ends with the 404 response. When the scope resolves and the candidate set is empty,
  the response is the "no notes" body (empty \<open>gifts\<close>, empty \<open>matchedNotes\<close> and the
  message) if the query embedding is produced, and the 500 response if it fails: the query
  is embedded before the candidates are read.
\<close>

theorem search_empty_candidates:
  assumes "getUser e (q_accessToken r) = Some uid"
    and "truthy (q_query r)"
  shows "(\<forall>message s1. resolveProfile uid r s = (Inl message, s1) \<longrightarrow>
            fst (search_gifts e r s) = NotFound message) \<and>
         (\<forall>resolved s1. resolveProfile uid r s = (Inr resolved, s1) \<and>
            candidates uid resolved (kv s) = [] \<longrightarrow>
            fst (search_gifts e r s) =
              (case generateSimpleEmbedding e (orElse (q_query r) []) of
                 Inl message \<Rightarrow> ServerError ''Failed to search for gifts''
               | Inr queryEmbedding \<Rightarrow> NoNotes [] [] noNotesMessage))"
proof (intro conjI allI impI)
  fix message s1
  assume "resolveProfile uid r s = (Inl message, s1)"
  with assms show "fst (search_gifts e r s) = NotFound message"
    by (simp add: search_gifts_def)
next
  fix resolved s1
  assume h: "resolveProfile uid r s = (Inr resolved, s1) \<and> candidates uid resolved (kv s) = []"
  show "fst (search_gifts e r s) =
              (case generateSimpleEmbedding e (orElse (q_query r) []) of
                 Inl message \<Rightarrow> ServerError ''Failed to search for gifts''
               | Inr queryEmbedding \<Rightarrow> NoNotes [] [] noNotesMessage)"
  proof (cases "generateSimpleEmbedding e (orElse (q_query r) [])")
    case (Inl message)
    then show ?thesis
      using search_gifts_embedding_fails [OF assms, of s resolved s1 message] h by simp
  next
    case (Inr queryEmbedding)
    then show ?thesis
      using search_gifts_reached [OF assms, of s resolved s1 queryEmbedding] h by simp
  qed
qed

theorem search_empty_candidates_witness:
  "fst (search_gifts env0 (searchReq (Some ''tea'') None None) st0) = NoNotes [] [] noNotesMessage \<and>
   fst (search_gifts env0 (searchReq (Some ''tea'') None (Some ''Mom'')) st0) =
     NotFound (''No profile found with name '' @ [CHR 0x27] @ ''Mom'' @ [CHR 0x27])"
proof -
  let ?r = "searchReq (Some ''tea'') None None"
  let ?n = "searchReq (Some ''tea'') None (Some ''Mom'')"
  have 1: "getUser env0 (q_accessToken ?r) = Some ''u1''" "getUser env0 (q_accessToken ?n) = Some ''u1''"
    by (simp_all add: ex_defs)
  have 2: "truthy (q_query ?r)" "truthy (q_query ?n)"
    by (simp_all add: ex_defs)
  have 3: "resolveProfile ''u1'' ?r st0 = (Inr None, st0) \<and> candidates ''u1'' None (kv st0) = []"
    by (simp add: ex_defs resolveProfile_def candidates_def kv_getByPrefix_def)
  have 4: "generateSimpleEmbedding env0 (orElse (q_query ?r) []) = Inr [Num 1, Num 0]"
    by (simp add: ex_defs generateSimpleEmbedding_def trim_eval)
  have 5: "resolveProfile ''u1'' ?n st0 =
      (Inl (''No profile found with name '' @ [CHR 0x27] @ ''Mom'' @ [CHR 0x27]),
       traced (KvGetByPrefix (userPrefix ''u1'')) st0)"
    by (simp add: ex_defs resolveProfile_def kv_getByPrefix_def)
  show ?thesis
    using search_empty_candidates [OF 1(1) 2(1), of st0] search_empty_candidates [OF 1(2) 2(2), of st0]
      3 4 5
    by simp
qed

text \<open>
  C10, counterexample. The request names a profile id under which nothing is stored; the
  embedding of the query \<open>fail\<close> is rejected, and the search answers with the 500 response,
  with no store read.
\<close>

theorem search_explicit_profileId_embedding_fails:
  "candidates ''u1'' (Some ''no-such-profile'') (kv st_cat) = [] \<and>
   search_gifts env0 (searchReq (Some ''fail'') (Some ''no-such-profile'') None) st_cat =
     (ServerError ''Failed to search for gifts'', st_cat)"
  by (simp add: ex_defs search_defs)

text \<open>
  C10, amended. With a non-empty \<open>profileId\<close> in the request, the name is not resolved (no
  store is read for it) and no response is the 404 of a profile that is not found. When the
  call is authorised and has a query string, and no note is stored under that id, the
  response is the "no notes" body after the single read of the note prefix if the query
  embedding is produced, and the 500 response with no store read if it fails.
\<close>

theorem search_explicit_profileId:
  assumes "truthy (q_profileId r)"
  shows "(\<forall>message. fst (search_gifts e r s) \<noteq> NotFound message) \<and>
     (\<forall>uid. resolveProfile uid r s = (Inr (q_profileId r), s)) \<and>
     (\<forall>uid. getUser e (q_accessToken r) = Some uid \<and> truthy (q_query r) \<and>
        candidates uid (q_profileId r) (kv s) = [] \<longrightarrow>
        search_gifts e r s =
          (case generateSimpleEmbedding e (orElse (q_query r) []) of
             Inl message \<Rightarrow> (ServerError ''Failed to search for gifts'', s)
           | Inr queryEmbedding \<Rightarrow>
               (NoNotes [] [] noNotesMessage,
                traced (KvGetByPrefix (notePrefix uid (idString (q_profileId r)))) s)))"
proof (intro conjI allI impI)
  fix message
  show "fst (search_gifts e r s) \<noteq> NotFound message"
    using assms
    by (simp add: search_gifts_def resolveProfile_explicit Let_def split: option.splits sum.splits)
next
  fix uid
  show "resolveProfile uid r s = (Inr (q_profileId r), s)"
    using assms by (rule resolveProfile_explicit)
next
  fix uid
  assume h: "getUser e (q_accessToken r) = Some uid \<and> truthy (q_query r) \<and>
        candidates uid (q_profileId r) (kv s) = []"
  have res: "resolveProfile uid r s = (Inr (q_profileId r), s)"
    using assms by (rule resolveProfile_explicit)
  have pfx: "searchPrefix uid (q_profileId r) = notePrefix uid (idString (q_profileId r))"
    using assms by (simp add: searchPrefix_def)
  show "search_gifts e r s =
          (case generateSimpleEmbedding e (orElse (q_query r) []) of
             Inl message \<Rightarrow> (ServerError ''Failed to search for gifts'', s)
           | Inr queryEmbedding \<Rightarrow>
               (NoNotes [] [] noNotesMessage,
                traced (KvGetByPrefix (notePrefix uid (idString (q_profileId r)))) s))"
  proof (cases "generateSimpleEmbedding e (orElse (q_query r) [])")
    case (Inl message)
    then show ?thesis
      using search_gifts_embedding_fails [of e r uid s "q_profileId r" s message] h res by simp
  next
    case (Inr queryEmbedding)
    then show ?thesis
      using search_gifts_reached [of e r uid s "q_profileId r" s queryEmbedding] h res pfx by simp
  qed
qed

theorem search_explicit_profileId_witness:
  "search_gifts env0 (searchReq (Some ''tea'') (Some ''no-such-profile'') None) st_cat =
     (NoNotes [] [] noNotesMessage,
      traced (KvGetByPrefix (notePrefix ''u1'' ''no-such-profile'')) st_cat)"
proof -
  let ?r = "searchReq (Some ''tea'') (Some ''no-such-profile'') None"
  have t: "truthy (q_profileId ?r)"
    by (simp add: ex_defs)
  have "getUser env0 (q_accessToken ?r) = Some ''u1'' \<and> truthy (q_query ?r) \<and>
        candidates ''u1'' (q_profileId ?r) (kv st_cat) = []"
    by (simp add: ex_defs candidates_def kv_getByPrefix_def searchPrefix_def)
  moreover have "generateSimpleEmbedding env0 (orElse (q_query ?r) []) = Inr [Num 1, Num 0]"
    by (simp add: ex_defs generateSimpleEmbedding_def trim_eval)
  ultimately show ?thesis
    using search_explicit_profileId [OF t, of env0 st_cat] by (simp add: ex_defs)
qed

lemma cosineSimilarity_zero_left:
  assumes "\<forall>v\<in>set a. v = Num 0"
  shows "cosineSimilarity (Some a) b = Num 0"
proof (cases b)
  case None
  then show ?thesis by (simp add: cosineSimilarity_def)
next
  case (Some y)
  obtain d sa sb where acc: "accumulate a y (Num 0, Num 0, Num 0) = (d, sa, sb)"
    by (cases "accumulate a y (Num 0, Num 0, Num 0)") auto
  have "sa = Num 0"
    using accumulate_zero_left [OF assms acc] by simp
  with Some acc show ?thesis
    by (simp add: cosineSimilarity_def)
qed

lemma cosineSimilarity_empty_right: "cosineSimilarity a (Some []) = Num 0"
  by (simp add: cosineSimilarity_def split: option.splits)

lemma scoreNote_zero_query: "scoreNote (replicate k (Num 0)) n = (n, Num 0)"
  by (simp add: scoreNote_def cosineSimilarity_zero_left)

lemma scoreNote_no_embedding: "embedding n = None \<Longrightarrow> scoreNote q n = (n, Num 0)"
  by (simp add: scoreNote_def cosineSimilarity_empty_right)

lemma js_sort_ties:
  "\<forall>z\<in>set xs. similarity z = Num c \<Longrightarrow> js_sort bySimilarity xs = xs"
proof (induction xs)
  case Nil
  then show ?case by (simp add: js_sort_def)
next
  case (Cons x xs)
  then have ih: "foldr (js_insert bySimilarity) xs [] = xs"
    by (simp add: js_sort_def)
  have "js_insert bySimilarity x xs = x # xs"
  proof (cases xs)
    case Nil
    then show ?thesis by simp
  next
    case (Cons y ys)
    with Cons.prems show ?thesis
      by (simp add: bySimilarity_Num)
  qed
  with ih show ?case
    by (simp add: js_sort_def)
qed

lemma scoredNotes_zero_query:
  "scoredNotes (replicate k (Num 0)) notes = take 10 (map (\<lambda>n. (n, Num 0)) notes)"
proof -
  have eq: "map (scoreNote (replicate k (Num 0))) notes = map (\<lambda>n. (n, Num 0)) notes"
    by (simp add: scoreNote_zero_query)
  have "\<forall>z\<in>set (map (\<lambda>n. (n, Num 0)) notes). similarity z = Num 0"
    by (auto simp: similarity_def)
  then have ties: "js_sort bySimilarity (map (\<lambda>n. (n, Num 0)) notes) = map (\<lambda>n. (n, Num 0)) notes"
    by (rule js_sort_ties)
  show ?thesis
    unfolding scoredNotes_def eq ties by (rule refl)
qed

text \<open>
  C3, counterexample. The third note of \<open>st3\<close> has an entry and no embedding; a search
  scoped to its profile returns it, with the score 0.
\<close>

theorem search_returns_note_without_embedding:
  "embedding (snd (storedNote ''p1'' ''n3'' ''socks'' None)) = None \<and>
   kv st3 ! 2 = storedNote ''p1'' ''n3'' ''socks'' None \<and>
   fst (search_gifts env0 (searchReq (Some ''x'') (Some ''p1'') None) st3) =
     SearchResult ''x'' ''p1'' 3
       [\<lparr>noteId = Some ''n2'', rel_entry = Some ''books'', rel_profileId = Some ''p1'',
          relevanceScore = Num 100\<rparr>,
        \<lparr>noteId = Some ''n1'', rel_entry = Some ''tea'', rel_profileId = Some ''p1'',
          relevanceScore = Num 0\<rparr>,
        \<lparr>noteId = Some ''n3'', rel_entry = Some ''socks'', rel_profileId = Some ''p1'',
          relevanceScore = Num 0\<rparr>]"
  by (simp add: ex_defs search_defs)

text \<open>
  C3, amended. A stored note that has an entry and no embedding stays a candidate of the
  search and is scored 0: when the search finds at most 10 candidates, the note is among the
  ranked results, with the relevance score 0.
\<close>

theorem search_keeps_note_without_embedding:
  assumes "getUser e (q_accessToken r) = Some uid"
    and "truthy (q_query r)"
    and "resolveProfile uid r s = (Inr resolved, s1)"
    and "generateSimpleEmbedding e (orElse (q_query r) []) = Inr queryEmbedding"
    and "n \<in> set (kv_getByPrefix (searchPrefix uid resolved) (kv s))"
    and "entry n \<noteq> None"
    and "embedding n = None"
    and "length (candidates uid resolved (kv s)) \<le> 10"
  shows "\<exists>q used total rel.
           fst (search_gifts e r s) = SearchResult q used total rel \<and>
           \<lparr>noteId = item_id n, rel_entry = entry n, rel_profileId = profileId n,
             relevanceScore = Num 0\<rparr> \<in> set rel"
proof -
  let ?notes = "candidates uid resolved (kv s)"
  have cand: "n \<in> set ?notes"
    using assms(5,6) by (simp add: candidates_def)
  then have ne: "?notes \<noteq> []"
    by auto
  have len: "length (js_sort bySimilarity (map (scoreNote queryEmbedding) ?notes)) \<le> 10"
    using assms(8) by (simp add: length_js_sort)
  have "(n, Num 0) \<in> set (js_sort bySimilarity (map (scoreNote queryEmbedding) ?notes))"
    using cand scoreNote_no_embedding [OF assms(7), of queryEmbedding]
    unfolding set_js_sort by (metis imageI set_map)
  then have "(n, Num 0) \<in> set (scoredNotes queryEmbedding ?notes)"
    using len by (simp add: scoredNotes_def)
  then have "\<lparr>noteId = item_id n, rel_entry = entry n, rel_profileId = profileId n,
             relevanceScore = Num 0\<rparr> \<in> set (relevantData (scoredNotes queryEmbedding ?notes))"
    by (force simp: relevantData_def similarity_def fin_Num)
  then show ?thesis
    using search_gifts_reached [OF assms(1-4)] ne by simp
qed

theorem search_keeps_note_without_embedding_witness:
  "\<exists>q used total rel.
     fst (search_gifts env0 (searchReq (Some ''x'') (Some ''p1'') None) st3) =
       SearchResult q used total rel \<and>
     \<lparr>noteId = Some ''n3'', rel_entry = Some ''socks'', rel_profileId = Some ''p1'',
       relevanceScore = Num 0\<rparr> \<in> set rel"
proof -
  let ?r = "searchReq (Some ''x'') (Some ''p1'') None"
  let ?n = "snd (storedNote ''p1'' ''n3'' ''socks'' None)"
  have 1: "getUser env0 (q_accessToken ?r) = Some ''u1''"
    by (simp add: ex_defs)
  have 2: "truthy (q_query ?r)"
    by (simp add: ex_defs)
  have 3: "resolveProfile ''u1'' ?r st3 = (Inr (Some ''p1''), st3)"
    by (simp add: ex_defs resolveProfile_def)
  have 4: "generateSimpleEmbedding env0 (orElse (q_query ?r) []) = Inr [Num 1, Num 0]"
    by (simp add: ex_defs generateSimpleEmbedding_def trim_eval)
  have 5: "?n \<in> set (kv_getByPrefix (searchPrefix ''u1'' (Some ''p1'')) (kv st3))"
    by (simp add: ex_defs kv_getByPrefix_def searchPrefix_def)
  have 6: "entry ?n \<noteq> None"
    by (simp add: ex_defs)
  have 7: "embedding ?n = None"
    by (simp add: ex_defs)
  have 8: "length (candidates ''u1'' (Some ''p1'') (kv st3)) \<le> 10"
    by (simp add: ex_defs candidates_def kv_getByPrefix_def searchPrefix_def)
  show ?thesis
    using search_keeps_note_without_embedding [OF 1 2 3 4 5 6 7 8] by (simp add: ex_defs)
qed

text \<open>
  C4, counterexample. The empty query string is refused with the 400 response before any
  embedding or ranking.
\<close>

theorem search_rejects_empty_query:
  "search_gifts env0 (searchReq (Some []) None None) st3 =
     (BadRequest ''Query string is required'', st3)"
  by (simp add: search_gifts_def ex_defs)

text \<open>
  Two more calls with a query of two blanks: without an embedding client the call ends with
  the 500 response, and with a profile name that matches no record it ends with the 404
  response.
\<close>

lemma search_blank_query_without_client:
  "search_gifts (env0\<lparr>embeddingModel := None\<rparr>) (searchReq (Some ''  '') (Some ''p1'') None) st3 =
     (ServerError ''Failed to search for gifts'', st3)"
  by (simp add: ex_defs search_defs)

lemma search_blank_query_unknown_name:
  "fst (search_gifts env0 (searchReq (Some ''  '') None (Some ''Mom'')) st3) =
     NotFound (''No profile found with name '' @ [CHR 0x27] @ ''Mom'' @ [CHR 0x27])"
  by (simp add: ex_defs search_defs nameMatches_def)

text \<open>
  C4, amended. For a query string that is not empty and has only white space, with the
  embedding client initialised, the query embedding is the zero vector of length 768 whatever
  the remote model would answer, and its similarity to every vector is 0. An authorised
  search with such a query ends with the 404 response when its profile name matches no
  record; otherwise it returns the first 10 candidates in their listing order, each with the
  score 0 (the "no notes" body when there is no candidate).
\<close>

theorem search_whitespace_query:
  assumes "getUser e (q_accessToken r) = Some uid"
    and "q_query r = Some query"
    and "query \<noteq> []"
    and "js_trim query = []"
    and "embeddingModel e \<noteq> None"
  shows "(\<forall>embedContent.
            generateSimpleEmbedding (e\<lparr>embeddingModel := Some embedContent\<rparr>) query =
              Inr (replicate 768 (Num 0))) \<and>
         generateSimpleEmbedding e query = Inr (replicate 768 (Num 0)) \<and>
         (\<forall>v. cosineSimilarity (Some (replicate 768 (Num 0))) v = Num 0) \<and>
         (\<forall>message s1. resolveProfile uid r s = (Inl message, s1) \<longrightarrow>
            fst (search_gifts e r s) = NotFound message) \<and>
         (\<forall>resolved s1. resolveProfile uid r s = (Inr resolved, s1) \<longrightarrow>
            fst (search_gifts e r s) =
              (if candidates uid resolved (kv s) = [] then NoNotes [] [] noNotesMessage
               else SearchResult query (case resolved of None \<Rightarrow> ''all-profiles'' | Some p \<Rightarrow> p)
                      (length (candidates uid resolved (kv s)))
                      (map (\<lambda>n. \<lparr>noteId = item_id n, rel_entry = entry n,
                                  rel_profileId = profileId n, relevanceScore = Num 0\<rparr>)
                         (take 10 (candidates uid resolved (kv s))))))"
proof (intro conjI allI impI)
  fix embedContent
  show "generateSimpleEmbedding (e\<lparr>embeddingModel := Some embedContent\<rparr>) query =
      Inr (replicate 768 (Num 0))"
    using assms(4) by (simp add: generateSimpleEmbedding_def)
next
  show emb: "generateSimpleEmbedding e query = Inr (replicate 768 (Num 0))"
    using assms(4,5) by (auto simp: generateSimpleEmbedding_def)
  have q: "orElse (q_query r) [] = query" and t: "truthy (q_query r)"
    using assms(2,3) by (simp_all add: orElse_def truthy_def)
  {
    fix message s1
    assume "resolveProfile uid r s = (Inl message, s1)"
    then show "fst (search_gifts e r s) = NotFound message"
      using assms(1) t by (simp add: search_gifts_def)
  next
    fix resolved s1
    assume res: "resolveProfile uid r s = (Inr resolved, s1)"
    have rel: "relevantData (map (\<lambda>n. (n, Num 0)) xs) =
        map (\<lambda>n. \<lparr>noteId = item_id n, rel_entry = entry n, rel_profileId = profileId n,
                   relevanceScore = Num 0\<rparr>) xs" for xs
      by (simp add: relevantData_def similarity_def fin_Num)
    show "fst (search_gifts e r s) =
              (if candidates uid resolved (kv s) = [] then NoNotes [] [] noNotesMessage
               else SearchResult query (case resolved of None \<Rightarrow> ''all-profiles'' | Some p \<Rightarrow> p)
                      (length (candidates uid resolved (kv s)))
                      (map (\<lambda>n. \<lparr>noteId = item_id n, rel_entry = entry n,
                                  rel_profileId = profileId n, relevanceScore = Num 0\<rparr>)
                         (take 10 (candidates uid resolved (kv s)))))"
      using search_gifts_reached [OF assms(1) t res, of "replicate 768 (Num 0)"] emb
      by (simp add: q scoredNotes_zero_query take_map rel)
  }
next
  fix v
  show "cosineSimilarity (Some (replicate 768 (Num 0))) v = Num 0"
    by (simp add: cosineSimilarity_zero_left)
qed

theorem search_whitespace_query_witness:
  "fst (search_gifts env0 (searchReq (Some ''  '') (Some ''p1'') None) st3) =
     SearchResult ''  '' ''p1'' 3
       [\<lparr>noteId = Some ''n1'', rel_entry = Some ''tea'', rel_profileId = Some ''p1'',
          relevanceScore = Num 0\<rparr>,
        \<lparr>noteId = Some ''n2'', rel_entry = Some ''books'', rel_profileId = Some ''p1'',
          relevanceScore = Num 0\<rparr>,
        \<lparr>noteId = Some ''n3'', rel_entry = Some ''socks'', rel_profileId = Some ''p1'',
          relevanceScore = Num 0\<rparr>] \<and>
   fst (search_gifts env0 (searchReq (Some ''  '') None (Some ''Mom'')) st3) =
     NotFound (''No profile found with name '' @ [CHR 0x27] @ ''Mom'' @ [CHR 0x27])"
proof -
  let ?r = "searchReq (Some ''  '') (Some ''p1'') None"
  let ?n = "searchReq (Some ''  '') None (Some ''Mom'')"
  have 1: "getUser env0 (q_accessToken ?r) = Some ''u1''" "getUser env0 (q_accessToken ?n) = Some ''u1''"
    by (simp_all add: ex_defs)
  have 2: "q_query ?r = Some ''  ''" "q_query ?n = Some ''  ''"
    by (simp_all add: ex_defs)
  have 3: "''  '' \<noteq> []"
    by simp
  have 4: "js_trim ''  '' = []"
    by (rule js_trim_blanks)
  have 5: "embeddingModel env0 \<noteq> None"
    by (simp add: ex_defs)
  have 6: "resolveProfile ''u1'' ?r st3 = (Inr (Some ''p1''), st3)"
    by (simp add: ex_defs resolveProfile_def)
  have 7: "resolveProfile ''u1'' ?n st3 =
      (Inl (''No profile found with name '' @ [CHR 0x27] @ ''Mom'' @ [CHR 0x27]),
       traced (KvGetByPrefix (userPrefix ''u1'')) st3)"
    by (simp add: ex_defs resolveProfile_def kv_getByPrefix_def nameMatches_def)
  have 8: "candidates ''u1'' (Some ''p1'') (kv st3) = map snd (kv st3)"
    by (simp add: ex_defs candidates_def kv_getByPrefix_def searchPrefix_def)
  show ?thesis
    using search_whitespace_query [OF 1(1) 2(1) 3 4 5, of st3]
      search_whitespace_query [OF 1(2) 2(2) 3 4 5, of st3] 6 7 8
    by (simp add: ex_defs)
qed

text \<open>
  C8, counterexample. Creating a profile without a name fails with the validation error
  after the handler has read the user's records from the key-value store.
\<close>

theorem create_profile_reads_before_validation:
  "create_profile env0 (createReq None (Some ''my father'')) st0 =
     (BadRequest ''Profile name is required'',
      st0\<lparr>trace := [KvGetByPrefix ''user:u1:profile:'']\<rparr>)"
  by (simp add: create_profile_def ex_defs kv_getByPrefix_def requiredText_def)

text \<open>
  C8, amended. A search without a query string is refused with the state untouched: no
  store is read or written. A profile creation with a missing or blank name or description
  is refused after exactly one store access, the prefix read of the limit check, and no store
  is written.
\<close>

theorem validation_before_store_writes:
  assumes "getUser e accessToken = Some uid"
  shows "(q_accessToken r = accessToken \<and> \<not> truthy (q_query r) \<longrightarrow>
            search_gifts e r s = (BadRequest ''Query string is required'', s)) \<and>
         (cp_accessToken c = accessToken \<and>
            (\<not> requiredText (cp_name c) \<or> \<not> requiredText (cp_description c)) \<longrightarrow>
            (\<exists>message. fst (create_profile e c s) = BadRequest message) \<and>
            snd (create_profile e c s) = traced (KvGetByPrefix (userPrefix uid)) s \<and>
            kv (snd (create_profile e c s)) = kv s \<and>
            profiles (snd (create_profile e c s)) = profiles s \<and>
            memory_items (snd (create_profile e c s)) = memory_items s)"
proof (intro conjI impI)
  assume "q_accessToken r = accessToken \<and> \<not> truthy (q_query r)"
  with assms show "search_gifts e r s = (BadRequest ''Query string is required'', s)"
    by (simp add: search_gifts_def)
next
  assume h: "cp_accessToken c = accessToken \<and>
            (\<not> requiredText (cp_name c) \<or> \<not> requiredText (cp_description c))"
  with assms show "\<exists>message. fst (create_profile e c s) = BadRequest message"
    by (auto simp: create_profile_def Let_def)
  from h assms show st: "snd (create_profile e c s) = traced (KvGetByPrefix (userPrefix uid)) s"
    by (auto simp: create_profile_def Let_def)
  show "kv (snd (create_profile e c s)) = kv s"
    unfolding st by (simp add: traced_def)
  show "profiles (snd (create_profile e c s)) = profiles s"
    unfolding st by (simp add: traced_def)
  show "memory_items (snd (create_profile e c s)) = memory_items s"
    unfolding st by (simp add: traced_def)
qed

theorem validation_before_store_writes_witness:
  "search_gifts env0 (searchReq None None None) st3 =
     (BadRequest ''Query string is required'', st3) \<and>
   kv (snd (create_profile env0 (createReq (Some ''Dad'') (Some ''  '')) st3)) = kv st3"
proof -
  have 1: "getUser env0 (Some ''token'') = Some ''u1''"
    by (simp add: ex_defs)
  have 2: "q_accessToken (searchReq None None None) = Some ''token'' \<and>
           \<not> truthy (q_query (searchReq None None None))"
    by (simp add: ex_defs)
  have 3: "cp_accessToken (createReq (Some ''Dad'') (Some ''  '')) = Some ''token'' \<and>
            (\<not> requiredText (cp_name (createReq (Some ''Dad'') (Some ''  ''))) \<or>
             \<not> requiredText (cp_description (createReq (Some ''Dad'') (Some ''  ''))))"
    by (simp add: ex_defs requiredText_def trim_eval)
  show ?thesis
    using validation_before_store_writes [OF 1, of "searchReq None None None" st3
        "createReq (Some ''Dad'') (Some ''  '')"] 2 3
    by blast
qed

text \<open>
  C5, the handler at the failing input. In \<open>st_cat\<close> the user has one profile, named Dad,
  with a category named Hobbies. The shape filter of the profile handlers finds the one
  profile; the name resolution of the search matches the category record, resolves the name
  to the category id \<open>c1\<close>, and the search answers "no notes" where no profile has the name.
\<close>

theorem search_by_name_matches_category:
  "kv_getByPrefix (userPrefix ''u1'') (kv st_cat) = map snd (kv st_cat) \<and>
   filter isProfileItem (map snd (kv st_cat)) = [snd (kv st_cat ! 0)] \<and>
   name (snd (kv st_cat ! 0)) = Some ''Dad'' \<and>
   resolveProfile ''u1'' (searchReq (Some ''golf'') None (Some ''hobbies'')) st_cat =
     (Inr (Some ''c1''), traced (KvGetByPrefix (userPrefix ''u1'')) st_cat) \<and>
   fst (search_gifts env0 (searchReq (Some ''golf'') None (Some ''hobbies'')) st_cat) =
     NoNotes [] [] noNotesMessage"
  by (simp add: ex_defs search_defs isProfileItem_def nameMatches_def toLowerCase_def
      lower_char_def)

subsection \<open>Deleting a profile\<close>

lemma getByPrefix_mdel_empty:
  assumes "\<forall>x\<in>set store. prefix p (fst x) \<longrightarrow> fst x \<in> set ks"
  shows "kv_getByPrefix p (kv_mdel ks store) = []"
  using assms by (auto simp: kv_getByPrefix_def kv_mdel_def filter_empty_conv)

lemma keyedById_listed:
  assumes "keyedById pfx store" and "x \<in> set store" and "prefix pfx (fst x)"
  shows "fst x \<in> set (map (\<lambda>n. pfx @ idString (item_id n)) (kv_getByPrefix pfx store))"
proof -
  have "snd x \<in> set (kv_getByPrefix pfx store)"
    using assms(2,3) by (auto simp: kv_getByPrefix_def)
  moreover have "fst x = pfx @ idString (item_id (snd x))"
    using assms by (auto simp: keyedById_def)
  ultimately show ?thesis
    by auto
qed

lemma mdel_key_removed: "k \<in> set ks \<Longrightarrow> k \<notin> fst ` set (kv_mdel ks store)"
  by (auto simp: kv_mdel_def)

lemma delete_profile_state:
  assumes "getUser e accessToken = Some uid"
  shows "kv (snd (delete_profile e accessToken pid s)) = kv_mdel (keysToDelete uid pid (kv s)) (kv s) \<and>
     memory_items (snd (delete_profile e accessToken pid s)) =
       delete_rows (\<lambda>row. mem_user_id row = uid \<and> mem_profile_id row = pid) (memory_items s) \<and>
     profiles (snd (delete_profile e accessToken pid s)) =
       delete_rows (\<lambda>row. row_user_id row = uid \<and> row_id row = pid) (profiles s) \<and>
     fst (delete_profile e accessToken pid s) = Success"
  using assms by (simp add: delete_profile_def traced_def Let_def keysToDelete_def)

text \<open>
  In a store whose keys all have the form that the handlers write, the records listed under a
  note or category prefix are the ones stored under the key of their own id.
\<close>

lemma prefix_colon_same:
  assumes "colonFree a" and "colonFree b"
    and "prefix (a @ CHR '':'' # r) (b @ CHR '':'' # t)"
  shows "a = b \<and> prefix r t"
  using assms
proof (induction a arbitrary: b)
  case Nil
  then show ?case
    by (cases b) (auto simp: colonFree_def)
next
  case (Cons x xs)
  then show ?case
    by (cases b) (auto simp: colonFree_def)
qed

lemma prefix_colon_end:
  assumes "colonFree a" and "colonFree b"
  shows "\<not> prefix (a @ CHR '':'' # r) b"
  using assms
proof (induction a arbitrary: b)
  case Nil
  then show ?case
    by (cases b) (auto simp: colonFree_def)
next
  case (Cons x xs)
  then show ?case
    by (cases b) (auto simp: colonFree_def)
qed

lemma wellKeyed_keyedById:
  assumes "wellKeyed store" and "colonFree uid" and "colonFree pid"
  shows "keyedById (notePrefix uid pid) store \<and> keyedById (categoryPrefix uid pid) store"
proof -
  have cf: "colonFree ''profile''" "colonFree ''note''" "colonFree ''category''"
    by (simp_all add: colonFree_def)
  have nk: "fst x = notePrefix uid pid @ idString (item_id (snd x))"
    if x: "x \<in> set store" and p: "prefix (notePrefix uid pid) (fst x)" for x
  proof -
    obtain u q where u: "colonFree u" and q: "colonFree q"
      and form: "fst x = profileKey u q \<or>
         fst x = notePrefix u q @ idString (item_id (snd x)) \<or>
         fst x = categoryPrefix u q @ idString (item_id (snd x))"
      using assms(1) x unfolding wellKeyed_def by blast
    from form show ?thesis
    proof (elim disjE)
      assume k: "fst x = profileKey u q"
      have "prefix (uid @ CHR '':'' # ''profile:'' @ pid @ '':note:'') (u @ CHR '':'' # ''profile:'' @ q)"
        using p k by (simp add: notePrefix_def profileKey_def userPrefix_def)
      then have "prefix (''profile:'' @ pid @ '':note:'') (''profile:'' @ q)"
        using prefix_colon_same [OF assms(2) u] by blast
      then have "prefix (pid @ CHR '':'' # ''note:'') q"
        by simp
      then show ?thesis
        using prefix_colon_end [OF assms(3) q] by blast
    next
      assume k: "fst x = notePrefix u q @ idString (item_id (snd x))"
      have "prefix (uid @ CHR '':'' # ''profile:'' @ pid @ '':note:'')
              (u @ CHR '':'' # ''profile:'' @ q @ '':note:'' @ idString (item_id (snd x)))"
        using p k by (simp add: notePrefix_def userPrefix_def)
      then have uu: "uid = u" and "prefix (''profile:'' @ pid @ '':note:'')
              (''profile:'' @ q @ '':note:'' @ idString (item_id (snd x)))"
        using prefix_colon_same [OF assms(2) u] by blast+
      then have "prefix (pid @ CHR '':'' # ''note:'') (q @ CHR '':'' # ''note:'' @ idString (item_id (snd x)))"
        by simp
      then have "pid = q"
        using prefix_colon_same [OF assms(3) q] by blast
      with uu k show ?thesis
        by simp
    next
      assume k: "fst x = categoryPrefix u q @ idString (item_id (snd x))"
      have "prefix (uid @ CHR '':'' # ''profile:'' @ pid @ '':note:'')
              (u @ CHR '':'' # ''profile:'' @ q @ '':category:'' @ idString (item_id (snd x)))"
        using p k by (simp add: notePrefix_def categoryPrefix_def userPrefix_def)
      then have "prefix (''profile:'' @ pid @ '':note:'')
              (''profile:'' @ q @ '':category:'' @ idString (item_id (snd x)))"
        using prefix_colon_same [OF assms(2) u] by blast
      then have "prefix (pid @ CHR '':'' # ''note:'') (q @ CHR '':'' # ''category:'' @ idString (item_id (snd x)))"
        by simp
      then have "prefix ''note:'' (''category:'' @ idString (item_id (snd x)))"
        using prefix_colon_same [OF assms(3) q] by blast
      then show ?thesis
        by simp
    qed
  qed
  have ck: "fst x = categoryPrefix uid pid @ idString (item_id (snd x))"
    if x: "x \<in> set store" and p: "prefix (categoryPrefix uid pid) (fst x)" for x
  proof -
    obtain u q where u: "colonFree u" and q: "colonFree q"
      and form: "fst x = profileKey u q \<or>
         fst x = notePrefix u q @ idString (item_id (snd x)) \<or>
         fst x = categoryPrefix u q @ idString (item_id (snd x))"
      using assms(1) x unfolding wellKeyed_def by blast
    from form show ?thesis
    proof (elim disjE)
      assume k: "fst x = profileKey u q"
      have "prefix (uid @ CHR '':'' # ''profile:'' @ pid @ '':category:'') (u @ CHR '':'' # ''profile:'' @ q)"
        using p k by (simp add: categoryPrefix_def profileKey_def userPrefix_def)
      then have "prefix (''profile:'' @ pid @ '':category:'') (''profile:'' @ q)"
        using prefix_colon_same [OF assms(2) u] by blast
      then have "prefix (pid @ CHR '':'' # ''category:'') q"
        by simp
      then show ?thesis
        using prefix_colon_end [OF assms(3) q] by blast
    next
      assume k: "fst x = notePrefix u q @ idString (item_id (snd x))"
      have "prefix (uid @ CHR '':'' # ''profile:'' @ pid @ '':category:'')
              (u @ CHR '':'' # ''profile:'' @ q @ '':note:'' @ idString (item_id (snd x)))"
        using p k by (simp add: notePrefix_def categoryPrefix_def userPrefix_def)
      then have "prefix (''profile:'' @ pid @ '':category:'')
              (''profile:'' @ q @ '':note:'' @ idString (item_id (snd x)))"
        using prefix_colon_same [OF assms(2) u] by blast
      then have "prefix (pid @ CHR '':'' # ''category:'') (q @ CHR '':'' # ''note:'' @ idString (item_id (snd x)))"
        by simp
      then have "prefix ''category:'' (''note:'' @ idString (item_id (snd x)))"
        using prefix_colon_same [OF assms(3) q] by blast
      then show ?thesis
        by simp
    next
      assume k: "fst x = categoryPrefix u q @ idString (item_id (snd x))"
      have "prefix (uid @ CHR '':'' # ''profile:'' @ pid @ '':category:'')
              (u @ CHR '':'' # ''profile:'' @ q @ '':category:'' @ idString (item_id (snd x)))"
        using p k by (simp add: categoryPrefix_def userPrefix_def)
      then have uu: "uid = u" and "prefix (''profile:'' @ pid @ '':category:'')
              (''profile:'' @ q @ '':category:'' @ idString (item_id (snd x)))"
        using prefix_colon_same [OF assms(2) u] by blast+
      then have "prefix (pid @ CHR '':'' # ''category:'') (q @ CHR '':'' # ''category:'' @ idString (item_id (snd x)))"
        by simp
      then have "pid = q"
        using prefix_colon_same [OF assms(3) q] by blast
      with uu k show ?thesis
        by simp
    qed
  qed
  show ?thesis
    unfolding keyedById_def using nk ck by blast
qed

text \<open>
  C6. Deleting a profile succeeds and removes from the key-value store the profile record
  and every note and category record that is stored under the profile's note or category
  key of its own id; it removes from the tables every \<open>memory_items\<close> row of the user and
  profile and the \<open>profiles\<close> row, and adds no record. When the records listed under the
  profile's note prefix (category prefix) are all stored under such keys, the notes
  (categories) listed afterwards are none, and a later search scoped to the profile id
  answers "no notes"; this is so in every store whose keys have the form that the handlers
  write, for ids without a colon.
\<close>

theorem delete_profile_cascades:
  assumes "getUser e accessToken = Some uid"
    and "s' = snd (delete_profile e accessToken pid s)"
  shows "fst (delete_profile e accessToken pid s) = Success \<and>
     set (kv s') \<subseteq> set (kv s) \<and>
     profileKey uid pid \<notin> fst ` set (kv s') \<and>
     (\<forall>x\<in>set (kv s). fst x = notePrefix uid pid @ idString (item_id (snd x)) \<longrightarrow>
        fst x \<notin> fst ` set (kv s')) \<and>
     (\<forall>x\<in>set (kv s). fst x = categoryPrefix uid pid @ idString (item_id (snd x)) \<longrightarrow>
        fst x \<notin> fst ` set (kv s')) \<and>
     (\<forall>row\<in>set (memory_items s'). \<not> (mem_user_id row = uid \<and> mem_profile_id row = pid)) \<and>
     (\<forall>row\<in>set (profiles s'). \<not> (row_user_id row = uid \<and> row_id row = pid)) \<and>
     (keyedById (notePrefix uid pid) (kv s) \<longrightarrow>
        fst (get_notes e accessToken pid s') = Notes [] \<and>
        (\<forall>r v. q_accessToken r = accessToken \<and> q_profileId r = Some pid \<and> pid \<noteq> [] \<and>
           truthy (q_query r) \<and> generateSimpleEmbedding e (orElse (q_query r) []) = Inr v \<longrightarrow>
           fst (search_gifts e r s') = NoNotes [] [] noNotesMessage)) \<and>
     (keyedById (categoryPrefix uid pid) (kv s) \<longrightarrow>
        fst (get_categories e accessToken pid s') = Categories []) \<and>
     (wellKeyed (kv s) \<and> colonFree uid \<and> colonFree pid \<longrightarrow>
        fst (get_notes e accessToken pid s') = Notes [] \<and>
        fst (get_categories e accessToken pid s') = Categories [])"
proof -
  let ?ks = "keysToDelete uid pid (kv s)"
  have ks: "kv s' = kv_mdel ?ks (kv s)"
    and mem: "memory_items s' =
       delete_rows (\<lambda>row. mem_user_id row = uid \<and> mem_profile_id row = pid) (memory_items s)"
    and prof: "profiles s' =
       delete_rows (\<lambda>row. row_user_id row = uid \<and> row_id row = pid) (profiles s)"
    and ok: "fst (delete_profile e accessToken pid s) = Success"
    using delete_profile_state [OF assms(1), of pid s] assms(2) by simp_all
  have sub: "set (kv s') \<subseteq> set (kv s)"
    unfolding ks by (auto simp: kv_mdel_def)
  have key_gone: "profileKey uid pid \<notin> fst ` set (kv s')"
    unfolding ks by (intro mdel_key_removed) (simp add: keysToDelete_def)
  have own_notes: "\<forall>x\<in>set (kv s). fst x = notePrefix uid pid @ idString (item_id (snd x)) \<longrightarrow>
        fst x \<notin> fst ` set (kv s')"
  proof (intro ballI impI)
    fix x
    assume x: "x \<in> set (kv s)" and k: "fst x = notePrefix uid pid @ idString (item_id (snd x))"
    have "snd x \<in> set (kv_getByPrefix (notePrefix uid pid) (kv s))"
      using x k by (auto simp: kv_getByPrefix_def)
    then have "fst x \<in> set ?ks"
      using k by (auto simp: keysToDelete_def)
    then show "fst x \<notin> fst ` set (kv s')"
      unfolding ks by (rule mdel_key_removed)
  qed
  have own_cats: "\<forall>x\<in>set (kv s). fst x = categoryPrefix uid pid @ idString (item_id (snd x)) \<longrightarrow>
        fst x \<notin> fst ` set (kv s')"
  proof (intro ballI impI)
    fix x
    assume x: "x \<in> set (kv s)" and k: "fst x = categoryPrefix uid pid @ idString (item_id (snd x))"
    have "snd x \<in> set (kv_getByPrefix (categoryPrefix uid pid) (kv s))"
      using x k by (auto simp: kv_getByPrefix_def)
    then have "fst x \<in> set ?ks"
      using k by (auto simp: keysToDelete_def)
    then show "fst x \<notin> fst ` set (kv s')"
      unfolding ks by (rule mdel_key_removed)
  qed
  have notes_gone: "kv_getByPrefix (notePrefix uid pid) (kv s') = []"
    if wf: "keyedById (notePrefix uid pid) (kv s)"
    unfolding ks
  proof (rule getByPrefix_mdel_empty, intro ballI impI)
    fix x
    assume "x \<in> set (kv s)" "prefix (notePrefix uid pid) (fst x)"
    then show "fst x \<in> set ?ks"
      using keyedById_listed [OF wf] by (simp add: keysToDelete_def)
  qed
  have cats_gone: "kv_getByPrefix (categoryPrefix uid pid) (kv s') = []"
    if wf: "keyedById (categoryPrefix uid pid) (kv s)"
    unfolding ks
  proof (rule getByPrefix_mdel_empty, intro ballI impI)
    fix x
    assume "x \<in> set (kv s)" "prefix (categoryPrefix uid pid) (fst x)"
    then show "fst x \<in> set ?ks"
      using keyedById_listed [OF wf] by (simp add: keysToDelete_def)
  qed
  have search: "fst (search_gifts e r s') = NoNotes [] [] noNotesMessage"
    if wf: "keyedById (notePrefix uid pid) (kv s)"
      and h: "q_accessToken r = accessToken \<and> q_profileId r = Some pid \<and> pid \<noteq> [] \<and>
        truthy (q_query r) \<and> generateSimpleEmbedding e (orElse (q_query r) []) = Inr v" for r v
  proof -
    have t: "truthy (q_profileId r)"
      using h by (simp add: truthy_def)
    have res: "resolveProfile uid r s' = (Inr (Some pid), s')"
      using resolveProfile_explicit [OF t, of uid s'] h by simp
    have "candidates uid (Some pid) (kv s') = []"
      using notes_gone [OF wf] h
      by (simp add: candidates_def searchPrefix_def truthy_def idString_def)
    then show ?thesis
      using search_gifts_reached [of e r uid s' "Some pid" s' v] h assms(1) res by simp
  qed
  have listed_notes: "keyedById (notePrefix uid pid) (kv s) \<longrightarrow>
        fst (get_notes e accessToken pid s') = Notes [] \<and>
        (\<forall>r v. q_accessToken r = accessToken \<and> q_profileId r = Some pid \<and> pid \<noteq> [] \<and>
           truthy (q_query r) \<and> generateSimpleEmbedding e (orElse (q_query r) []) = Inr v \<longrightarrow>
           fst (search_gifts e r s') = NoNotes [] [] noNotesMessage)"
    using notes_gone search assms(1) by (simp add: get_notes_def)
  have listed_cats: "keyedById (categoryPrefix uid pid) (kv s) \<longrightarrow>
        fst (get_categories e accessToken pid s') = Categories []"
    using cats_gone assms(1) by (simp add: get_categories_def)
  have rows: "\<forall>row\<in>set (memory_items s'). \<not> (mem_user_id row = uid \<and> mem_profile_id row = pid)"
    "\<forall>row\<in>set (profiles s'). \<not> (row_user_id row = uid \<and> row_id row = pid)"
    by (simp_all add: mem prof delete_rows_def)
  have built: "wellKeyed (kv s) \<and> colonFree uid \<and> colonFree pid \<longrightarrow>
        fst (get_notes e accessToken pid s') = Notes [] \<and>
        fst (get_categories e accessToken pid s') = Categories []"
    using wellKeyed_keyedById [of "kv s" uid pid] listed_notes listed_cats by blast
  show ?thesis
    using ok sub key_gone own_notes own_cats rows listed_notes listed_cats built by blast
qed

lemmas submit_defs = submit_def saveNote_def saveCategory_def orUUID_def profileNameOf_def
  noteRecord_def memoryRow_def kv_set_def generateSimpleEmbedding_def trim_eval
  submitReq_def noteIn_def

lemma st_p1_eq:
  "st_p1 =
     \<lparr>kv = [(''user:u1:profile:p1:category:c1'',
              blank\<lparr>item_id := Some ''c1'', name := Some ''Hobbies'', profileId := Some ''p1'',
                userId := Some ''u1'', createdAt := Some ''2025-01-01''\<rparr>),
             (''user:u1:profile:p1:note:n1'',
              noteRecord env0 ''u1'' ''p1'' ''n1'' (noteIn (Some ''n1'') ''tea'') [Num 1, Num 0])],
      profiles = [],
      memory_items = [memoryRow env0 ''u1'' ''p1'' None ''n1'' (noteIn (Some ''n1'') ''tea'') [Num 1, Num 0]],
      trace = [DbSelect ''profiles'', KvSet ''user:u1:profile:p1:category:c1'',
               KvSet ''user:u1:profile:p1:note:n1'', DbUpsert ''memory_items''],
      uuid_count = 0\<rparr>"
  by (simp add: st_p1_def submit_defs ex_defs Let_def)

theorem delete_profile_cascades_witness:
  "fst (get_notes env0 (Some ''token'') ''p1'' st_p1) =
     Notes [noteRecord env0 ''u1'' ''p1'' ''n1'' (noteIn (Some ''n1'') ''tea'') [Num 1, Num 0]] \<and>
   fst (get_notes env0 (Some ''token'') ''p1''
          (snd (delete_profile env0 (Some ''token'') ''p1'' st_p1))) = Notes [] \<and>
   fst (get_categories env0 (Some ''token'') ''p1''
          (snd (delete_profile env0 (Some ''token'') ''p1'' st_p1))) = Categories [] \<and>
   fst (search_gifts env0 (searchReq (Some ''tea'') (Some ''p1'') None)
          (snd (delete_profile env0 (Some ''token'') ''p1'' st_p1))) = NoNotes [] [] noNotesMessage"
proof -
  have user: "getUser env0 (Some ''token'') = Some ''u1''"
    by (simp add: ex_defs)
  have n: "keyedById (notePrefix ''u1'' ''p1'') (kv st_p1)"
    by (simp add: st_p1_eq keyedById_def ex_defs noteRecord_def)
  have c: "keyedById (categoryPrefix ''u1'' ''p1'') (kv st_p1)"
    by (simp add: st_p1_eq keyedById_def ex_defs noteRecord_def)
  have before: "fst (get_notes env0 (Some ''token'') ''p1'' st_p1) =
     Notes [noteRecord env0 ''u1'' ''p1'' ''n1'' (noteIn (Some ''n1'') ''tea'') [Num 1, Num 0]]"
    by (simp add: get_notes_def user) (simp add: st_p1_eq kv_getByPrefix_def ex_defs)
  have q: "q_accessToken (searchReq (Some ''tea'') (Some ''p1'') None) = Some ''token'' \<and>
      q_profileId (searchReq (Some ''tea'') (Some ''p1'') None) = Some ''p1'' \<and> ''p1'' \<noteq> [] \<and>
      truthy (q_query (searchReq (Some ''tea'') (Some ''p1'') None)) \<and>
      generateSimpleEmbedding env0 (orElse (q_query (searchReq (Some ''tea'') (Some ''p1'') None)) []) =
        Inr [Num 1, Num 0]"
    by (simp add: ex_defs generateSimpleEmbedding_def trim_eval)
  show ?thesis
    using delete_profile_cascades [OF user refl, of "''p1''" st_p1] n c before q by blast
qed

lemma st_nested_kv:
  "kv st_nested =
     [(''user:u1:profile:a:note:b:note:n1'',
       noteRecord env0 ''u1'' ''a:note:b'' ''n1'' (noteIn (Some ''n1'') ''tea'') [Num 1, Num 0])]"
  by (simp add: st_nested_def submit_defs ex_defs Let_def)

text \<open>
  The condition on the keys in the last parts is needed. A submit under the profile id
  \<open>a:note:b\<close> stores its note under a key that the note prefix of the profile id \<open>a\<close>
  also matches; deleting \<open>a\<close> rebuilds the key from the note id, removes nothing, and the
  note of the other profile is still listed under \<open>a\<close>.
\<close>

lemma delete_profile_keeps_nested_note:
  "fst (get_notes env0 (Some ''token'') ''a'' st_nested) =
     Notes [noteRecord env0 ''u1'' ''a:note:b'' ''n1'' (noteIn (Some ''n1'') ''tea'') [Num 1, Num 0]] \<and>
   fst (delete_profile env0 (Some ''token'') ''a'' st_nested) = Success \<and>
   fst (get_notes env0 (Some ''token'') ''a''
          (snd (delete_profile env0 (Some ''token'') ''a'' st_nested))) =
     Notes [noteRecord env0 ''u1'' ''a:note:b'' ''n1'' (noteIn (Some ''n1'') ''tea'') [Num 1, Num 0]]"
proof -
  let ?rec = "noteRecord env0 ''u1'' ''a:note:b'' ''n1'' (noteIn (Some ''n1'') ''tea'') [Num 1, Num 0]"
  have user: "getUser env0 (Some ''token'') = Some ''u1''"
    by (simp add: ex_defs)
  have listed: "kv_getByPrefix (notePrefix ''u1'' ''a'') (kv st_nested) = [?rec]"
    by (simp add: st_nested_kv kv_getByPrefix_def ex_defs)
  have cats: "kv_getByPrefix (categoryPrefix ''u1'' ''a'') (kv st_nested) = []"
    by (simp add: st_nested_kv kv_getByPrefix_def ex_defs)
  have keys: "keysToDelete ''u1'' ''a'' (kv st_nested) =
      [''user:u1:profile:a'', ''user:u1:profile:a:note:n1'']"
    by (simp add: keysToDelete_def listed cats) (simp add: ex_defs noteRecord_def)
  have kept: "kv (snd (delete_profile env0 (Some ''token'') ''a'' st_nested)) = kv st_nested"
    using delete_profile_state [OF user, of "''a''" st_nested]
    by (simp add: keys) (simp add: st_nested_kv kv_mdel_def)
  show ?thesis
    using delete_profile_state [OF user, of "''a''" st_nested]
    by (simp add: get_notes_def user kept listed)
qed

subsection \<open>Submitting notes\<close>

lemma orUUID_eq:
  "orUUID e x s =
     (if truthy x then (orElse x [], s)
      else (randomUUID e (uuid_count s), s\<lparr>uuid_count := Suc (uuid_count s)\<rparr>))"
  by (simp add: orUUID_def truthy_def orElse_def split: option.splits)




text \<open>
  The ids are given to the notes in the order of the request, and giving them writes to no
  store.
\<close>

lemma assignNoteIds_eq:
  "assignNoteIds e ns s = (pending, s') \<Longrightarrow>
   pending = zip (noteIds e ns (uuid_count s)) ns \<and> kv s' = kv s \<and>
   memory_items s' = memory_items s \<and> profiles s' = profiles s"
proof (induction ns arbitrary: s pending s')
  case Nil
  then show ?case by simp
next
  case (Cons n ns)
  obtain nid s1 where o: "orUUID e (note_id n) s = (nid, s1)"
    by (cases "orUUID e (note_id n) s") auto
  obtain rest s2 where r: "assignNoteIds e ns s1 = (rest, s2)"
    by (cases "assignNoteIds e ns s1") auto
  from Cons.prems o r have p: "pending = (nid, n) # rest" and s': "s' = s2"
    by simp_all
  from o have s1: "kv s1 = kv s" "memory_items s1 = memory_items s" "profiles s1 = profiles s"
    and ids: "noteIds e (n # ns) (uuid_count s) = nid # noteIds e ns (uuid_count s1)"
    by (auto simp: orUUID_eq split: if_splits)
  from Cons.IH [OF r] have ih: "rest = zip (noteIds e ns (uuid_count s1)) ns" "kv s2 = kv s1"
    "memory_items s2 = memory_items s1" "profiles s2 = profiles s1"
    by simp_all
  show ?case
    unfolding p s' ids using ih s1 by simp
qed

subsection \<open>Association lists and tables\<close>

lemma update_member: "(k, v) \<in> set (AList.update k v al)"
  by (induction al) auto








lemma saveNote_stored:
  assumes "saveNote e uid pid pn (nid, n) s = (None, s')"
  shows "\<exists>emb. generateSimpleEmbedding e (orElse (note_entry n) []) = Inr emb \<and>
     kv s' = kv_set (notePrefix uid pid @ nid) (noteRecord e uid pid nid n emb) (kv s) \<and>
     memory_items s' =
       upsert_row mem_id (memoryRow e uid pid pn nid n emb) (memory_items s) \<and>
     profiles s' = profiles s"
  using assms
  by (auto simp: saveNote_def traced_def Let_def split: sum.splits)

text \<open>
  A note that submit stores is stored under the note key of its own id, with its entry.
\<close>

lemma saveNote_keyed:
  assumes "saveNote e uid pid pn (nid, n) s = (None, s')"
  shows "\<exists>x\<in>set (kv s'). entry (snd x) = note_entry n \<and>
     fst x = notePrefix uid pid @ idString (item_id (snd x))"
proof -
  obtain emb where
    "kv s' = kv_set (notePrefix uid pid @ nid) (noteRecord e uid pid nid n emb) (kv s)"
    using saveNote_stored [OF assms] by blast
  then have "(notePrefix uid pid @ nid, noteRecord e uid pid nid n emb) \<in> set (kv s')"
    by (simp add: kv_set_def update_member)
  then show ?thesis
    by (rule bexI [rotated]) (simp add: noteRecord_def idString_def)
qed












subsection \<open>Stores built by the handlers\<close>

text \<open>
  Starting from the empty store, the handlers keep every key in the form of a profile key or
  of a note or category key of the record's own id, as long as the user ids, the profile ids
  of the requests and the drawn identifiers have no colon.
\<close>

lemma wellKeyed_empty: "wellKeyed []"
  by (simp add: wellKeyed_def)

lemma set_update_subset: "set (AList.update k v al) \<subseteq> insert (k, v) (set al)"
  by (induction al) auto

lemma wellKeyed_set:
  assumes "wellKeyed store" and "colonFree uid" and "colonFree pid"
    and "k = profileKey uid pid \<or> k = notePrefix uid pid @ idString (item_id v) \<or>
         k = categoryPrefix uid pid @ idString (item_id v)"
  shows "wellKeyed (kv_set k v store)"
  unfolding wellKeyed_def kv_set_def
proof
  fix x
  assume "x \<in> set (AList.update k v store)"
  then have "x = (k, v) \<or> x \<in> set store"
    using set_update_subset [of k v store] by blast
  then show "\<exists>uid pid. colonFree uid \<and> colonFree pid \<and>
        (fst x = profileKey uid pid \<or>
         fst x = notePrefix uid pid @ idString (item_id (snd x)) \<or>
         fst x = categoryPrefix uid pid @ idString (item_id (snd x)))"
  proof
    assume "x = (k, v)"
    with assms(2-4) show ?thesis
      by auto
  next
    assume "x \<in> set store"
    with assms(1) show ?thesis
      unfolding wellKeyed_def by blast
  qed
qed

lemma wellKeyed_mdel: "wellKeyed store \<Longrightarrow> wellKeyed (kv_mdel ks store)"
  by (simp add: wellKeyed_def kv_mdel_def)

lemma saveCategory_wellKeyed:
  assumes "wellKeyed (kv s)" and "colonFree uid" and "colonFree pid"
  shows "wellKeyed (kv (saveCategory e uid pid c s))"
proof -
  obtain cid s1 where o: "orUUID e (cat_id c) s = (cid, s1)"
    by (cases "orUUID e (cat_id c) s") auto
  then have "kv s1 = kv s"
    by (auto simp: orUUID_eq split: if_splits)
  with o assms show ?thesis
    by (simp add: saveCategory_def traced_def wellKeyed_set idString_def)
qed

lemma saveCategories_wellKeyed:
  assumes "wellKeyed (kv s)" and "colonFree uid" and "colonFree pid"
  shows "wellKeyed (kv (saveCategories e uid pid cs s))"
  using assms(1)
proof (induction cs arbitrary: s)
  case Nil
  then show ?case by simp
next
  case (Cons c cs)
  then show ?case
    using saveCategory_wellKeyed [OF _ assms(2,3)] by simp
qed

lemma saveNote_wellKeyed:
  assumes "wellKeyed (kv s)" and "colonFree uid" and "colonFree pid"
  shows "wellKeyed (kv (snd (saveNote e uid pid pn p s)))"
proof -
  obtain nid n where p: "p = (nid, n)"
    by (cases p) auto
  show ?thesis
  proof (cases "generateSimpleEmbedding e (orElse (note_entry n) [])")
    case (Inl message)
    with p assms(1) show ?thesis
      by (simp add: saveNote_def)
  next
    case (Inr emb)
    have "wellKeyed (kv_set (notePrefix uid pid @ nid) (noteRecord e uid pid nid n emb) (kv s))"
      using assms by (rule wellKeyed_set) (simp add: noteRecord_def idString_def)
    with p Inr show ?thesis
      by (simp add: saveNote_def traced_def Let_def)
  qed
qed

lemma saveNotes_wellKeyed:
  assumes "wellKeyed (kv s)" and "colonFree uid" and "colonFree pid"
  shows "wellKeyed (kv (snd (saveNotes e uid pid pn ps s)))"
  using assms(1)
proof (induction ps arbitrary: s)
  case Nil
  then show ?case by simp
next
  case (Cons p ps)
  obtain f s1 where step: "saveNote e uid pid pn p s = (f, s1)"
    by (cases "saveNote e uid pid pn p s") auto
  obtain fs s2 where rest: "saveNotes e uid pid pn ps s1 = (fs, s2)"
    by (cases "saveNotes e uid pid pn ps s1") auto
  have "wellKeyed (kv s1)"
    using saveNote_wellKeyed [OF Cons.prems assms(2,3), of e pn p] step by simp
  from Cons.IH [OF this] rest have "wellKeyed (kv s2)"
    by simp
  with step rest show ?case
    by simp
qed

text \<open>The order in which the notes are written plays no part in this.\<close>

lemma submit_wellKeyed:
  assumes "wellKeyed (kv s)"
    and "getUser e (sub_accessToken r) = Some uid"
    and "colonFree uid" and "colonFree (sub_profileId r)"
  shows "wellKeyed (kv (snd (submit e r s)))"
proof -
  let ?s2 = "saveCategories e uid (sub_profileId r)
               (case sub_categories r of None \<Rightarrow> [] | Some cs \<Rightarrow> cs)
               (traced (DbSelect ''profiles'') s)"
  obtain pending s3 where assigned:
    "assignNoteIds e (case sub_notes r of None \<Rightarrow> [] | Some ns \<Rightarrow> ns) ?s2 = (pending, s3)"
    by (cases "assignNoteIds e (case sub_notes r of None \<Rightarrow> [] | Some ns \<Rightarrow> ns) ?s2") auto
  let ?run = "saveNotes e uid (sub_profileId r)
      (profileNameOf uid (sub_profileId r) (profiles s)) (writeOrder e pending) s3"
  have "wellKeyed (kv (traced (DbSelect ''profiles'') s))"
    using assms(1) by (simp add: traced_def)
  then have "wellKeyed (kv ?s2)"
    by (rule saveCategories_wellKeyed) (rule assms(3), rule assms(4))
  then have "wellKeyed (kv s3)"
    using assignNoteIds_eq [OF assigned] by simp
  then have kept: "wellKeyed (kv (snd ?run))"
    by (rule saveNotes_wellKeyed) (rule assms(3), rule assms(4))
  obtain fs s4 where run: "?run = (fs, s4)"
    by (cases ?run) auto
  have "snd (submit e r s) = s4"
    using assms(2) assigned run by (cases fs) (simp_all add: submit_def Let_def)
  with kept run show ?thesis
    by simp
qed

lemma create_profile_wellKeyed:
  assumes "wellKeyed (kv s)"
    and "getUser e (cp_accessToken r) = Some uid"
    and "colonFree uid" and "\<forall>k. colonFree (randomUUID e k)"
  shows "wellKeyed (kv (snd (create_profile e r s)))"
proof -
  have "wellKeyed (kv_set (profileKey uid (randomUUID e k)) v (kv s))" for k v
    using assms(1,3) assms(4) [rule_format, of k]
    by (rule wellKeyed_set [where pid = "randomUUID e k"]) simp
  with assms(1,2) show ?thesis
    by (simp add: create_profile_def Let_def traced_def)
qed

lemma delete_profile_wellKeyed:
  "wellKeyed (kv s) \<Longrightarrow> wellKeyed (kv (snd (delete_profile e accessToken pid s)))"
  by (auto simp: delete_profile_def Let_def traced_def wellKeyed_mdel split: option.splits)

lemma delete_note_wellKeyed:
  "wellKeyed (kv s) \<Longrightarrow> wellKeyed (kv (snd (delete_note e accessToken pid nid s)))"
  by (auto simp: delete_note_def Let_def traced_def kv_del_def wellKeyed_mdel split: option.splits)

end
